theory Spec2Isabelle
  imports Main "HOL-Library.List_Lexorder" "HOL-Library.Char_ord"
begin

section \<open>The relational schema\<close>

text \<open>
  The three tables of the schema that the metadata service touches. A row of \<open>images\<close>
  is a record with the fourteen columns of the table; \<open>tags\<close> holds pairs
  \<open>(id, name)\<close>; \<open>image_tags\<close> holds pairs \<open>(image_id, tag_id)\<close>. Tables are lists in
  insertion (rowid) order. \<open>tags_seq\<close> is the AUTOINCREMENT counter of \<open>tags\<close>.
  TEXT values are compared bytewise, which is the lexicographic order on \<open>string\<close>.
\<close>

record ImageRow =
  row_id :: string
  original_name :: string
  upload_time :: string
  expiry_time :: "string option"
  row_orientation :: string
  row_format :: string
  row_width :: int
  row_height :: int
  path_original :: string
  path_webp :: "string option"
  path_avif :: "string option"
  size_original :: int
  size_webp :: int
  size_avif :: int

record DB =
  images :: "ImageRow list"
  tags_tbl :: "(nat \<times> string) list"
  image_tags :: "(string \<times> nat) list"
  tags_seq :: nat

text \<open>The application-level record \<open>ImageMetadata\<close>; \<open>paths\<close> and \<open>sizes\<close> are flattened.\<close>

record ImageMetadata =
  m_id :: string
  originalName :: string
  uploadTime :: string
  expiryTime :: "string option"
  orientation :: string
  tags :: "string list"
  format :: string
  width :: int
  height :: int
  paths_original :: string
  paths_webp :: string
  paths_avif :: string
  sizes_original :: int
  sizes_webp :: int
  sizes_avif :: int

text \<open>
  \<open>Partial<ImageMetadata>\<close> as \<open>updateImage\<close> reads it: only \<open>tags\<close> and
  \<open>expiryTime\<close> are ever consulted; \<open>None\<close> is \<open>undefined\<close>.
\<close>

record ImageUpdates =
  upd_tags :: "string list option"
  upd_expiryTime :: "string option"


record RandomFilters =
  rf_tags :: "string list option"
  rf_exclude :: "string list option"
  rf_orientation :: "string option"

datatype error =
    Constraint_PrimaryKey string
  | Constraint_Unique string
  | Constraint_Check string
  | Constraint_ForeignKey
  | No_SQL_Statements
  | Integer_Out_Of_Range

section \<open>JavaScript helpers\<close>

text \<open>\<open>s || null\<close> on an optional string: \<open>undefined\<close>, \<open>null\<close> and \<open>''\<close> are falsy.\<close>

definition or_null :: "string option \<Rightarrow> string option" where
  "or_null s = (case s of None \<Rightarrow> None | Some v \<Rightarrow> if v = [] then None else Some v)"

text \<open>\<open>s || ''\<close> on a nullable string.\<close>

definition or_empty :: "string option \<Rightarrow> string" where
  "or_empty s = (case s of None \<Rightarrow> [] | Some v \<Rightarrow> v)"

text \<open>\<open>new Set(xs)\<close> iterates in order of first insertion.\<close>

fun js_Set :: "'a list \<Rightarrow> 'a list" where
  "js_Set [] = []"
| "js_Set (x # xs) = x # filter (\<lambda>y. y \<noteq> x) (js_Set xs)"

section \<open>SQL statements and their execution\<close>

text \<open>
  One constructor per prepared statement of the service, with its bound parameters in
  the order of the \<open>bind\<close> call.
\<close>

datatype stmt =
    InsertImage ImageRow
  | InsertOrIgnoreTag string
  | InsertImageTag string string
  | InsertOrIgnoreImageTag string string
  | DeleteImageTag string string
  | UpdateExpiry "string option" string
  | DeleteImage string
  | UpdateTagName string string
  | DeleteTag string

definition image_ids :: "DB \<Rightarrow> string set" where
  "image_ids db = set (map row_id (images db))"

definition tag_names :: "DB \<Rightarrow> string set" where
  "tag_names db = set (map snd (tags_tbl db))"

text \<open>\<open>SELECT ?, id FROM tags WHERE name = ?\<close>.\<close>

definition select_tag_rows :: "DB \<Rightarrow> string \<Rightarrow> string \<Rightarrow> (string \<times> nat) list" where
  "select_tag_rows db img n = [(img, tid). (tid, nm) \<leftarrow> tags_tbl db, nm = n]"

text \<open>AUTOINCREMENT: one more than every id that exists or has ever existed.\<close>

definition next_tag_id :: "DB \<Rightarrow> nat" where
  "next_tag_id db = Suc (fold max (map fst (tags_tbl db)) (tags_seq db))"

text \<open>\<open>CHECK (orientation IN ('landscape', 'portrait'))\<close>\<close>

definition valid_orientation :: "string \<Rightarrow> bool" where
  "valid_orientation s \<longleftrightarrow> s = ''landscape'' \<or> s = ''portrait''"

text \<open>
  \<open>exec\<close> runs one statement and returns the new database and the number of rows the
  statement changed, or the constraint that it violated. The constraints are those of
  the schema: the primary keys of \<open>images\<close> and \<open>image_tags\<close>, the CHECK on
  \<open>orientation\<close>, UNIQUE on \<open>tags.name\<close>, and the two foreign keys of \<open>image_tags\<close>
  with ON DELETE CASCADE, which the storage engine enforces (the service relies on the
  cascade in \<open>deleteImage\<close>). OR IGNORE skips rows that violate a uniqueness
  constraint; it does not apply to foreign keys.
\<close>

fun exec :: "DB \<Rightarrow> stmt \<Rightarrow> error + DB \<times> nat" where
  "exec db (InsertImage r) =
     (if \<not> valid_orientation (row_orientation r)
      then Inl (Constraint_Check ''images'')
      else if row_id r \<in> image_ids db then Inl (Constraint_PrimaryKey ''images'')
      else Inr (db\<lparr>images := images db @ [r]\<rparr>, 1))"
| "exec db (InsertOrIgnoreTag n) =
     (if n \<in> tag_names db then Inr (db, 0)
      else Inr (db\<lparr>tags_tbl := tags_tbl db @ [(next_tag_id db, n)],
                   tags_seq := next_tag_id db\<rparr>, 1))"
| "exec db (InsertImageTag img n) =
     (let rows = select_tag_rows db img n in
      if \<not> distinct rows \<or> set rows \<inter> set (image_tags db) \<noteq> {}
      then Inl (Constraint_PrimaryKey ''image_tags'')
      else if rows \<noteq> [] \<and> img \<notin> image_ids db then Inl Constraint_ForeignKey
      else Inr (db\<lparr>image_tags := image_tags db @ rows\<rparr>, length rows))"
| "exec db (InsertOrIgnoreImageTag img n) =
     (let rows = filter (\<lambda>r. r \<notin> set (image_tags db)) (js_Set (select_tag_rows db img n)) in
      if rows \<noteq> [] \<and> img \<notin> image_ids db then Inl Constraint_ForeignKey
      else Inr (db\<lparr>image_tags := image_tags db @ rows\<rparr>, length rows))"
| "exec db (DeleteImageTag img n) =
     (case select_tag_rows db img n of
        [] \<Rightarrow> Inr (db, 0)
      | r # _ \<Rightarrow> Inr (db\<lparr>image_tags := filter (\<lambda>x. x \<noteq> r) (image_tags db)\<rparr>,
                      length (filter (\<lambda>x. x = r) (image_tags db))))"
| "exec db (UpdateExpiry e i) =
     Inr (db\<lparr>images := map (\<lambda>r. if row_id r = i then r\<lparr>expiry_time := e\<rparr> else r) (images db)\<rparr>,
          length (filter (\<lambda>r. row_id r = i) (images db)))"
| "exec db (DeleteImage i) =
     (let deleted = filter (\<lambda>r. row_id r = i) (images db) in
      Inr (db\<lparr>images := filter (\<lambda>r. row_id r \<noteq> i) (images db),
              image_tags := filter (\<lambda>(img, tid). img \<notin> set (map row_id deleted)) (image_tags db)\<rparr>,
           length deleted))"
| "exec db (UpdateTagName new old) =
     (let hit = filter (\<lambda>(tid, nm). nm = old) (tags_tbl db) in
      if hit = [] then Inr (db, 0)
      else if new \<noteq> old \<and> (new \<in> tag_names db \<or> length hit > 1)
      then Inl (Constraint_Unique ''tags'')
      else Inr (db\<lparr>tags_tbl := map (\<lambda>(tid, nm). if nm = old then (tid, new) else (tid, nm))
                                   (tags_tbl db)\<rparr>, length hit))"
| "exec db (DeleteTag n) =
     (let deleted = filter (\<lambda>(tid, nm). nm = n) (tags_tbl db) in
      Inr (db\<lparr>tags_tbl := filter (\<lambda>(tid, nm). nm \<noteq> n) (tags_tbl db),
              image_tags := filter (\<lambda>(img, tid). tid \<notin> set (map fst deleted)) (image_tags db)\<rparr>,
           length deleted))"

text \<open>
  \<open>db.batch\<close> of the storage client: the statements run in order inside one
  transaction. If one fails, the error is returned and the database is the one from
  before the batch. A batch without statements is rejected by the client
  (\<open>No SQL statements detected\<close>); \<open>updateImage\<close> tests the length before it calls
  \<open>batch\<close>, \<open>batchUpdateTags\<close> does not.
\<close>

fun exec_all :: "DB \<Rightarrow> stmt list \<Rightarrow> error + DB" where
  "exec_all db [] = Inr db"
| "exec_all db (s # ss) =
     (case exec db s of Inl e \<Rightarrow> Inl e | Inr (db', _) \<Rightarrow> exec_all db' ss)"

definition batch :: "DB \<Rightarrow> stmt list \<Rightarrow> (error + unit) \<times> DB" where
  "batch db ss =
     (if ss = [] then (Inl No_SQL_Statements, db)
      else case exec_all db ss of Inl e \<Rightarrow> (Inl e, db) | Inr db' \<Rightarrow> (Inr (), db'))"

section \<open>The metadata service\<close>

subsection \<open>Image CRUD\<close>

definition metadataToRow :: "ImageMetadata \<Rightarrow> ImageRow" where
  "metadataToRow metadata =
     \<lparr> row_id = m_id metadata,
       original_name = originalName metadata,
       upload_time = uploadTime metadata,
       expiry_time = or_null (expiryTime metadata),
       row_orientation = orientation metadata,
       row_format = format metadata,
       row_width = width metadata,
       row_height = height metadata,
       path_original = paths_original metadata,
       path_webp = or_null (Some (paths_webp metadata)),
       path_avif = or_null (Some (paths_avif metadata)),
       size_original = sizes_original metadata,
       size_webp = sizes_webp metadata,
       size_avif = sizes_avif metadata \<rparr>"

definition saveImage_statements :: "ImageMetadata \<Rightarrow> stmt list" where
  "saveImage_statements metadata =
     InsertImage (metadataToRow metadata) #
     concat (map (\<lambda>tag. [InsertOrIgnoreTag tag, InsertImageTag (m_id metadata) tag])
                 (tags metadata))"

definition saveImage :: "DB \<Rightarrow> ImageMetadata \<Rightarrow> (error + unit) \<times> DB" where
  "saveImage db metadata = batch db (saveImage_statements metadata)"

definition rowToMetadata :: "ImageRow \<Rightarrow> string list \<Rightarrow> ImageMetadata" where
  "rowToMetadata row ts =
     \<lparr> m_id = row_id row,
       originalName = original_name row,
       uploadTime = upload_time row,
       expiryTime = or_null (expiry_time row),
       orientation = row_orientation row,
       tags = ts,
       format = row_format row,
       width = row_width row,
       height = row_height row,
       paths_original = path_original row,
       paths_webp = or_empty (path_webp row),
       paths_avif = or_empty (path_avif row),
       sizes_original = size_original row,
       sizes_webp = size_webp row,
       sizes_avif = size_avif row \<rparr>"

text \<open>
  \<open>SELECT t.name FROM tags t JOIN image_tags it ON t.id = it.tag_id WHERE it.image_id = ?\<close>
\<close>

definition getImage_tags :: "DB \<Rightarrow> string \<Rightarrow> string list" where
  "getImage_tags db i =
     [nm. (tid, nm) \<leftarrow> tags_tbl db, (img, tid') \<leftarrow> image_tags db, tid' = tid, img = i]"

definition getImage :: "DB \<Rightarrow> string \<Rightarrow> ImageMetadata option" where
  "getImage db i =
     (case filter (\<lambda>r. row_id r = i) (images db) of
        [] \<Rightarrow> None
      | image' # _ \<Rightarrow> Some (rowToMetadata image' (getImage_tags db i)))"

text \<open>The local \<open>statements\<close> of \<open>updateImage\<close>, as it stands at the length test.\<close>

definition updateImage_statements :: "ImageMetadata \<Rightarrow> string \<Rightarrow> ImageUpdates \<Rightarrow> stmt list" where
  "updateImage_statements image' i updates =
     (case upd_tags updates of
        None \<Rightarrow> []
      | Some ts \<Rightarrow>
          (let oldTags = js_Set (tags image'); newTags = js_Set ts in
           map (DeleteImageTag i) (filter (\<lambda>tag. tag \<notin> set newTags) oldTags) @
           concat (map (\<lambda>tag. [InsertOrIgnoreTag tag, InsertOrIgnoreImageTag i tag])
                       (filter (\<lambda>tag. tag \<notin> set oldTags) newTags)))) @
     (case upd_expiryTime updates of
        None \<Rightarrow> []
      | Some e \<Rightarrow> [UpdateExpiry (or_null (Some e)) i])"

definition updateImage ::
  "DB \<Rightarrow> string \<Rightarrow> ImageUpdates \<Rightarrow> (error + ImageMetadata option) \<times> DB" where
  "updateImage db i updates =
     (case getImage db i of
        None \<Rightarrow> (Inr None, db)
      | Some image' \<Rightarrow>
          (let statements = updateImage_statements image' i updates in
           if length statements > 0
           then (case batch db statements of
                   (Inl e, db') \<Rightarrow> (Inl e, db')
                 | (Inr _, db') \<Rightarrow> (Inr (getImage db' i), db'))
           else (Inr (getImage db i), db)))"

definition deleteImage :: "DB \<Rightarrow> string \<Rightarrow> (error + bool) \<times> DB" where
  "deleteImage db i =
     (case exec db (DeleteImage i) of
        Inl e \<Rightarrow> (Inl e, db)
      | Inr (db', changes) \<Rightarrow> (Inr (changes > 0), db'))"

subsection \<open>Image queries\<close>

text \<open>
  \<open>ORDER BY i.upload_time DESC\<close> names no second key: the order of rows with equal
  \<open>upload_time\<close> is the engine's choice. The parameter \<open>tie\<close> ranks the rows in the
  order in which the engine's plan for the statement visits them; the result is sorted
  by \<open>upload_time\<close> descending, and by \<open>tie\<close> among equal times. The plan belongs to
  the prepared statement, so it is the same for every LIMIT and OFFSET bound to it.
\<close>

definition order_by_upload_time_desc :: "(ImageRow \<Rightarrow> nat) \<Rightarrow> ImageRow list \<Rightarrow> ImageRow list" where
  "order_by_upload_time_desc tie rows = rev (sort_key upload_time (rev (sort_key tie rows)))"

text \<open>The ranking under which the rows come out in a given arrangement.\<close>

definition position :: "'a list \<Rightarrow> 'a \<Rightarrow> nat" where
  "position xs x = length (takeWhile (\<lambda>y. y \<noteq> x) xs)"










text \<open>\<open>filters?.xs?.length\<close> is truthy exactly for a present, non-empty list.\<close>

definition opt_list :: "'a list option \<Rightarrow> 'a list" where
  "opt_list xs = (case xs of None \<Rightarrow> [] | Some ys \<Rightarrow> ys)"

definition filter_tags :: "RandomFilters option \<Rightarrow> string list" where
  "filter_tags filters = (case filters of None \<Rightarrow> [] | Some f \<Rightarrow> opt_list (rf_tags f))"

definition filter_exclude :: "RandomFilters option \<Rightarrow> string list" where
  "filter_exclude filters = (case filters of None \<Rightarrow> [] | Some f \<Rightarrow> opt_list (rf_exclude f))"

definition filter_orientation :: "RandomFilters option \<Rightarrow> string option" where
  "filter_orientation filters = (case filters of None \<Rightarrow> None | Some f \<Rightarrow> or_null (rf_orientation f))"

text \<open>
  The sub-select of the exclude condition:
  \<open>SELECT it2.image_id FROM image_tags it2 JOIN tags t2 ON it2.tag_id = t2.id WHERE t2.name IN (...)\<close>
\<close>

definition excluded_ids :: "DB \<Rightarrow> string list \<Rightarrow> string list" where
  "excluded_ids db ex =
     [img. (img, tid) \<leftarrow> image_tags db, (tid', nm) \<leftarrow> tags_tbl db, tid' = tid, nm \<in> set ex]"

text \<open>
  \<open>GROUP BY i.id HAVING COUNT(DISTINCT t.name) = ?\<close> over joined rows \<open>(i, t.name)\<close>:
  one output row per group that passes, carrying the columns of the group's first row.
\<close>

definition group_having :: "(ImageRow \<times> string) list \<Rightarrow> nat \<Rightarrow> ImageRow list" where
  "group_having joined n =
     concat (map (\<lambda>gid.
        (let grp = filter (\<lambda>(i, nm). row_id i = gid) joined in
         if length (remdups (map snd grp)) = n then take 1 (map fst grp) else []))
       (remdups (map (\<lambda>(i, nm). row_id i) joined)))"

text \<open>The rows of the query of \<open>getRandomImage\<close> before \<open>ORDER BY RANDOM() LIMIT 1\<close>.\<close>

definition getRandomImage_rows :: "DB \<Rightarrow> RandomFilters option \<Rightarrow> ImageRow list" where
  "getRandomImage_rows db filters =
     (let ts = filter_tags filters;
          ex = filter_exclude filters;
          keep = (\<lambda>i. (ex = [] \<or> row_id i \<notin> set (excluded_ids db ex)) \<and>
                      (case filter_orientation filters of
                         None \<Rightarrow> True | Some orient \<Rightarrow> row_orientation i = orient))
      in if ts \<noteq> []
         then group_having
                (filter (\<lambda>(i, nm). nm \<in> set ts \<and> keep i)
                   [(i, nm). i \<leftarrow> images db, (img, tid) \<leftarrow> image_tags db, img = row_id i,
                             (tid', nm) \<leftarrow> tags_tbl db, tid' = tid])
                (length ts)
         else filter keep (images db))"

text \<open>
  \<open>ORDER BY RANDOM() LIMIT 1\<close>: the random order is the parameter \<open>rnd\<close>, which selects
  the row that comes first. Every row of a non-empty result is selected by some \<open>rnd\<close>.
\<close>

definition random_first :: "nat \<Rightarrow> 'a list \<Rightarrow> 'a option" where
  "random_first rnd rows = (if rows = [] then None else Some (rows ! (rnd mod length rows)))"

definition getRandomImage :: "DB \<Rightarrow> nat \<Rightarrow> RandomFilters option \<Rightarrow> ImageMetadata option" where
  "getRandomImage db rnd filters =
     (case random_first rnd (getRandomImage_rows db filters) of
        None \<Rightarrow> None
      | Some result \<Rightarrow> getImage db (row_id result))"

subsection \<open>Tag management\<close>

definition createTag :: "DB \<Rightarrow> string \<Rightarrow> (error + unit) \<times> DB" where
  "createTag db name =
     (case exec db (InsertOrIgnoreTag name) of
        Inl e \<Rightarrow> (Inl e, db)
      | Inr (db', _) \<Rightarrow> (Inr (), db'))"

text \<open>
  \<open>SELECT COUNT(*) FROM image_tags it JOIN tags t ON it.tag_id = t.id WHERE t.name = ?\<close>
\<close>

definition count_tagged :: "DB \<Rightarrow> string \<Rightarrow> nat" where
  "count_tagged db name =
     length [img. (img, tid) \<leftarrow> image_tags db, (tid', nm) \<leftarrow> tags_tbl db, tid' = tid, nm = name]"

definition renameTag :: "DB \<Rightarrow> string \<Rightarrow> string \<Rightarrow> (error + nat) \<times> DB" where
  "renameTag db oldName newName =
     (let countResult = count_tagged db oldName in
      case exec db (UpdateTagName newName oldName) of
        Inl e \<Rightarrow> (Inl e, db)
      | Inr (db', _) \<Rightarrow> (Inr countResult, db'))"

definition deleteTag :: "DB \<Rightarrow> string \<Rightarrow> (error + nat) \<times> DB" where
  "deleteTag db name =
     (let countResult = count_tagged db name in
      case exec db (DeleteTag name) of
        Inl e \<Rightarrow> (Inl e, db)
      | Inr (db', _) \<Rightarrow> (Inr countResult, db'))"

definition batchUpdateTags_statements :: "string list \<Rightarrow> string list \<Rightarrow> string list \<Rightarrow> stmt list" where
  "batchUpdateTags_statements imageIds addTags removeTags =
     map InsertOrIgnoreTag addTags @
     concat (map (\<lambda>i. map (DeleteImageTag i) removeTags @ map (InsertOrIgnoreImageTag i) addTags)
                 imageIds)"

definition batchUpdateTags ::
  "DB \<Rightarrow> string list \<Rightarrow> string list \<Rightarrow> string list \<Rightarrow> (error + nat) \<times> DB" where
  "batchUpdateTags db imageIds addTags removeTags =
     (case batch db (batchUpdateTags_statements imageIds addTags removeTags) of
        (Inl e, db') \<Rightarrow> (Inl e, db')
      | (Inr _, db') \<Rightarrow> (Inr (length imageIds), db'))"

section \<open>Schema invariants\<close>

text \<open>
  What the storage engine keeps true at every commit: the primary keys, UNIQUE on tag
  names, and both foreign keys of \<open>image_tags\<close>.
\<close>

definition schema_ok :: "DB \<Rightarrow> bool" where
  "schema_ok db \<longleftrightarrow>
     distinct (map row_id (images db)) \<and>
     distinct (map fst (tags_tbl db)) \<and>
     distinct (map snd (tags_tbl db)) \<and>
     distinct (image_tags db) \<and>
     list_all (\<lambda>(img, tid). img \<in> image_ids db \<and> tid \<in> set (map fst (tags_tbl db)))
              (image_tags db)"

text \<open>The tag names that the join of \<open>getImage\<close> finds for an image, as a set.\<close>

definition linked :: "DB \<Rightarrow> string \<Rightarrow> string set" where
  "linked db i = set (getImage_tags db i)"

section \<open>The filter predicate and the full result of a listing\<close>





section \<open>Sample data\<close>

definition sample_row :: "string \<Rightarrow> string \<Rightarrow> string option \<Rightarrow> string \<Rightarrow> ImageRow" where
  "sample_row i t e orient =
     \<lparr> row_id = i, original_name = ''photo.png'', upload_time = t, expiry_time = e,
       row_orientation = orient, row_format = ''png'', row_width = 800, row_height = 600,
       path_original = ''original/photo.png'', path_webp = None, path_avif = None,
       size_original = 1024, size_webp = 0, size_avif = 0 \<rparr>"

definition sample_metadata :: "string \<Rightarrow> string \<Rightarrow> string \<Rightarrow> string list \<Rightarrow> ImageMetadata" where
  "sample_metadata i t orient ts =
     \<lparr> m_id = i, originalName = ''photo.png'', uploadTime = t, expiryTime = None,
       orientation = orient, tags = ts, format = ''png'', width = 800, height = 600,
       paths_original = ''original/photo.png'', paths_webp = [], paths_avif = [],
       sizes_original = 1024, sizes_webp = 0, sizes_avif = 0 \<rparr>"

definition empty_db :: DB where
  "empty_db = \<lparr> images = [], tags_tbl = [], image_tags = [], tags_seq = 0 \<rparr>"

text \<open>
  Three images: \<open>img1\<close> with tags cat and orange, \<open>img2\<close> with tag orange, \<open>img3\<close>
  without tags; the tag feline exists and has no image.
\<close>

definition sample_db :: DB where
  "sample_db =
     \<lparr> images = [sample_row ''img1'' ''2024-01-03'' (Some ''2030-01-01'') ''landscape'',
                 sample_row ''img2'' ''2024-01-01'' None ''portrait'',
                 sample_row ''img3'' ''2024-01-02'' None ''landscape''],
       tags_tbl = [(1, ''cat''), (2, ''orange''), (3, ''feline'')],
       image_tags = [(''img1'', 1), (''img1'', 2), (''img2'', 2)],
       tags_seq = 3 \<rparr>"

text \<open>What \<open>getImage\<close> returns for \<open>img1\<close> in the sample database.\<close>

definition sample_img1 :: ImageMetadata where
  "sample_img1 =
     rowToMetadata (sample_row ''img1'' ''2024-01-03'' (Some ''2030-01-01'') ''landscape'')
       [''cat'', ''orange'']"

definition both_tags :: "RandomFilters option" where
  "both_tags = Some \<lparr>rf_tags = Some [''cat'', ''orange''], rf_exclude = None, rf_orientation = None\<rparr>"


text \<open>Updates for \<open>img1\<close> of the sample database.\<close>

definition replace_tags :: ImageUpdates where
  "replace_tags = \<lparr>upd_tags = Some [''orange'', ''dog''], upd_expiryTime = None\<rparr>"

definition same_tags :: ImageUpdates where
  "same_tags = \<lparr>upd_tags = Some [''orange'', ''cat''], upd_expiryTime = None\<rparr>"

definition same_values :: ImageUpdates where
  "same_values = \<lparr>upd_tags = Some [''orange'', ''cat''], upd_expiryTime = Some ''2030-01-01''\<rparr>"

text \<open>
  The scenario of the specification: \<open>img1\<close> with tags cat and orange saved into the
  empty database, and the database that results. A record that names a tag twice.
\<close>

definition scenario_metadata :: ImageMetadata where
  "scenario_metadata = sample_metadata ''img1'' ''2024-01-01'' ''landscape'' [''cat'', ''orange'']"

definition scenario_db :: DB where
  "scenario_db =
     \<lparr> images = [metadataToRow scenario_metadata],
       tags_tbl = [(1, ''cat''), (2, ''orange'')],
       image_tags = [(''img1'', 1), (''img1'', 2)],
       tags_seq = 2 \<rparr>"

definition duplicate_metadata :: ImageMetadata where
  "duplicate_metadata = sample_metadata ''img9'' ''2024-01-05'' ''landscape'' [''cat'', ''cat'']"






section \<open>Basic facts about the queries\<close>

lemmas sample_defs = sample_db_def sample_row_def sample_metadata_def empty_db_def

lemma set_getImage_tags:
  "set (getImage_tags db i) = {nm. \<exists>tid. (tid, nm) \<in> set (tags_tbl db) \<and> (i, tid) \<in> set (image_tags db)}"
  by (auto simp: getImage_tags_def)

lemma getImage_None_iff: "getImage db i = None \<longleftrightarrow> i \<notin> image_ids db"
proof -
  have "getImage db i = None \<longleftrightarrow> filter (\<lambda>r. row_id r = i) (images db) = []"
    by (simp add: getImage_def split: list.splits)
  also have "\<dots> \<longleftrightarrow> i \<notin> image_ids db"
    by (auto simp: image_ids_def filter_empty_conv)
  finally show ?thesis .
qed

lemma getImage_Some_id: "getImage db i = Some m \<Longrightarrow> m_id m = i \<and> tags m = getImage_tags db i \<and> i \<in> image_ids db"
proof -
  assume a: "getImage db i = Some m"
  then obtain r rs where f: "filter (\<lambda>r. row_id r = i) (images db) = r # rs"
    and m: "m = rowToMetadata r (getImage_tags db i)"
    by (auto simp: getImage_def split: list.splits)
  from f have "r \<in> set (filter (\<lambda>r. row_id r = i) (images db))" by simp
  then have "row_id r = i" "r \<in> set (images db)" by auto
  with m show ?thesis by (auto simp: rowToMetadata_def image_ids_def)
qed

lemma group_having_mem:
  assumes "r \<in> set (group_having joined n)"
  shows "card (snd ` {p \<in> set joined. row_id (fst p) = row_id r}) = n"
proof -
  from assms obtain gid where
    len: "length (remdups (map snd (filter (\<lambda>(i, nm). row_id i = gid) joined))) = n"
    and r: "r \<in> set (take 1 (map fst (filter (\<lambda>(i, nm). row_id i = gid) joined)))"
    by (auto simp: group_having_def Let_def split: if_splits)
  from r have "r \<in> set (map fst (filter (\<lambda>(i, nm). row_id i = gid) joined))"
    by (rule in_set_takeD)
  then have g: "row_id r = gid" by auto
  have "set (map snd (filter (\<lambda>(i, nm). row_id i = gid) joined))
        = snd ` {p \<in> set joined. row_id (fst p) = row_id r}"
    using g by (auto simp: image_iff)
  with len show ?thesis by (metis length_remdups_card_conv)
qed

lemma group_having_subset:
  "r \<in> set (group_having joined n) \<Longrightarrow> r \<in> fst ` set joined"
proof -
  assume "r \<in> set (group_having joined n)"
  then obtain gid where
    "r \<in> set (take 1 (map fst (filter (\<lambda>(i, nm). row_id i = gid) joined)))"
    by (auto simp: group_having_def Let_def split: if_splits)
  then have "r \<in> set (map fst (filter (\<lambda>(i, nm). row_id i = gid) joined))"
    by (rule in_set_takeD)
  then show ?thesis by auto
qed

lemma random_first_mem: "random_first rnd rows = Some r \<Longrightarrow> r \<in> set rows"
  by (auto simp: random_first_def split: if_splits)

lemma random_first_None: "random_first rnd rows = None \<longleftrightarrow> rows = []"
  by (simp add: random_first_def)

lemma getRandomImage_rows_tags:
  assumes ne: "filter_tags filters \<noteq> []"
    and r: "r \<in> set (getRandomImage_rows db filters)"
  shows "distinct (filter_tags filters) \<and>
         set (filter_tags filters) \<subseteq> set (getImage_tags db (row_id r)) \<and>
         r \<in> set (images db)"
proof -
  define ts where "ts = filter_tags filters"
  obtain J where
    gh: "r \<in> set (group_having J (length ts))"
    and J: "\<And>i nm. (i, nm) \<in> set J \<Longrightarrow>
               nm \<in> set ts \<and> nm \<in> set (getImage_tags db (row_id i)) \<and> i \<in> set (images db)"
  proof -
    let ?keep = "\<lambda>i. (filter_exclude filters = [] \<or>
                      row_id i \<notin> set (excluded_ids db (filter_exclude filters))) \<and>
                     (case filter_orientation filters of
                        None \<Rightarrow> True | Some orient \<Rightarrow> row_orientation i = orient)"
    let ?J = "filter (\<lambda>(i, nm). nm \<in> set ts \<and> ?keep i)
                [(i, nm). i \<leftarrow> images db, (img, tid) \<leftarrow> image_tags db, img = row_id i,
                          (tid', nm) \<leftarrow> tags_tbl db, tid' = tid]"
    have a: "r \<in> set (group_having ?J (length ts))"
      using r ne by (simp add: getRandomImage_rows_def Let_def ts_def)
    have b: "\<And>i nm. (i, nm) \<in> set ?J \<Longrightarrow>
               nm \<in> set ts \<and> nm \<in> set (getImage_tags db (row_id i)) \<and> i \<in> set (images db)"
      by (auto simp: set_getImage_tags)
    from a b show ?thesis by (rule that)
  qed
  define N where "N = snd ` {p \<in> set J. row_id (fst p) = row_id r}"
  have cardN: "card N = length ts"
    unfolding N_def using gh by (rule group_having_mem)
  have sub1: "N \<subseteq> set ts" unfolding N_def using J by auto
  have sub2: "N \<subseteq> set (getImage_tags db (row_id r))" unfolding N_def using J by force
  have "card N \<le> card (set ts)" using sub1 by (simp add: card_mono)
  moreover have "card (set ts) \<le> length ts" by (rule card_length)
  ultimately have ceq: "card (set ts) = length ts" and ceq2: "card N = card (set ts)"
    using cardN by simp_all
  from ceq have d: "distinct ts" by (rule card_distinct)
  have "N = set ts" using sub1 ceq2 by (simp add: card_subset_eq)
  with sub2 have s: "set ts \<subseteq> set (getImage_tags db (row_id r))" by simp
  have "r \<in> fst ` set J" using gh by (rule group_having_subset)
  then have "r \<in> set (images db)" using J by auto
  with d s show ?thesis by (simp add: ts_def)
qed

lemmas random_defs = getRandomImage_def random_first_def getRandomImage_rows_def group_having_def
  filter_tags_def filter_exclude_def filter_orientation_def opt_list_def or_null_def getImage_def
  getImage_tags_def rowToMetadata_def or_empty_def Let_def

section \<open>Deleting an image\<close>

text \<open>
  Claim C8. For every id, \<open>deleteImage\<close> returns true exactly when an image row with
  that id existed; afterwards no row with that id is left, and the associations of a
  deleted row are gone with it. When the row was absent the result is false, not an
  error, and the database is unchanged.
\<close>

theorem deleteImage_reports_existence:
  "fst (deleteImage db i) = Inr (i \<in> image_ids db) \<and>
   getImage (snd (deleteImage db i)) i = None \<and>
   (i \<in> image_ids db \<longrightarrow> i \<notin> fst ` set (image_tags (snd (deleteImage db i)))) \<and>
   (i \<notin> image_ids db \<longrightarrow> snd (deleteImage db i) = db)"
proof -
  have 1: "fst (deleteImage db i) = Inr (i \<in> image_ids db)"
    by (auto simp: deleteImage_def image_ids_def Let_def filter_empty_conv)
  have 2: "getImage (snd (deleteImage db i)) i = None"
    by (simp add: getImage_None_iff) (auto simp: deleteImage_def image_ids_def Let_def)
  have 4: "i \<in> image_ids db \<longrightarrow> i \<notin> fst ` set (image_tags (snd (deleteImage db i)))"
    by (auto simp: deleteImage_def Let_def image_ids_def)
  have 3: "i \<notin> image_ids db \<longrightarrow> snd (deleteImage db i) = db"
  proof
    assume "i \<notin> image_ids db"
    then have a: "filter (\<lambda>r. row_id r = i) (images db) = []"
      and b: "filter (\<lambda>r. row_id r \<noteq> i) (images db) = images db"
      by (auto simp: image_ids_def filter_empty_conv filter_id_conv)
    show "snd (deleteImage db i) = db"
      by (simp add: deleteImage_def Let_def a b)
  qed
  show ?thesis using 1 2 3 4 by blast
qed

theorem deleteImage_reports_existence_witness:
  "''ghost'' \<notin> image_ids sample_db \<and>
   deleteImage sample_db ''ghost'' = (Inr False, sample_db) \<and>
   ''img1'' \<in> image_ids sample_db \<and>
   fst (deleteImage sample_db ''img1'') = Inr True \<and>
   getImage (snd (deleteImage sample_db ''img1'')) ''img1'' = None"
proof -
  have g: "''ghost'' \<notin> image_ids sample_db" and i: "''img1'' \<in> image_ids sample_db"
    by (simp_all add: image_ids_def sample_defs)
  from deleteImage_reports_existence[of sample_db "''ghost''"] g
  have "fst (deleteImage sample_db ''ghost'') = Inr False"
    and "snd (deleteImage sample_db ''ghost'') = sample_db" by simp_all
  then have a: "deleteImage sample_db ''ghost'' = (Inr False, sample_db)"
    by (simp add: prod_eq_iff)
  from deleteImage_reports_existence[of sample_db "''img1''"] i
  have b: "fst (deleteImage sample_db ''img1'') = Inr True"
    and c: "getImage (snd (deleteImage sample_db ''img1'')) ''img1'' = None" by simp_all
  from g a i b c show ?thesis by simp
qed

section \<open>Random selection with a tag filter\<close>

text \<open>
  Claim C1. For every database, every outcome of the random order and every non-empty
  tag filter list: if \<open>getRandomImage\<close> returns an image, the image is associated with
  every tag of the list. So an image that has only some of the listed tags is never
  returned.
\<close>

theorem getRandomImage_tags_and:
  assumes "filter_tags filters \<noteq> []"
    and "getRandomImage db rnd filters = Some m"
  shows "set (filter_tags filters) \<subseteq> set (tags m) \<and>
         tags m = getImage_tags db (m_id m) \<and>
         m_id m \<in> image_ids db"
proof -
  from assms(2) obtain r where
    r: "random_first rnd (getRandomImage_rows db filters) = Some r"
    and g: "getImage db (row_id r) = Some m"
    by (auto simp: getRandomImage_def split: option.splits)
  from r have "r \<in> set (getRandomImage_rows db filters)" by (rule random_first_mem)
  with assms(1) have s: "set (filter_tags filters) \<subseteq> set (getImage_tags db (row_id r))"
    using getRandomImage_rows_tags by blast
  from g have "m_id m = row_id r" "tags m = getImage_tags db (row_id r)" "row_id r \<in> image_ids db"
    using getImage_Some_id by blast+
  with s show ?thesis by simp
qed

theorem getRandomImage_tags_and_witness:
  "filter_tags both_tags \<noteq> [] \<and>
   getRandomImage sample_db 0 both_tags = Some sample_img1 \<and>
   set (filter_tags both_tags) \<subseteq> set (tags sample_img1) \<and>
   tags sample_img1 = [''cat'', ''orange'']"
proof -
  have h1: "filter_tags both_tags \<noteq> []"
    by (simp add: both_tags_def filter_tags_def opt_list_def)
  have h2: "getRandomImage sample_db 0 both_tags = Some sample_img1"
    by (simp add: both_tags_def sample_img1_def random_defs sample_defs)
  have h3: "tags sample_img1 = [''cat'', ''orange'']"
    by (simp add: sample_img1_def rowToMetadata_def)
  have h4: "set (filter_tags both_tags) \<subseteq> set (tags sample_img1)"
    using getRandomImage_tags_and[OF h1 h2] by (rule conjunct1)
  from h1 h2 h4 h3 show ?thesis by (intro conjI)
qed



section \<open>Effects of the statements under the schema invariants\<close>

lemma linked_iff:
  "nm \<in> linked db i \<longleftrightarrow> (\<exists>tid. (tid, nm) \<in> set (tags_tbl db) \<and> (i, tid) \<in> set (image_tags db))"
  by (simp add: linked_def set_getImage_tags)

lemma fold_max_ge_init: "(a::nat) \<le> fold max xs a"
  by (induction xs arbitrary: a) (auto intro: order_trans[OF max.cobounded2])

lemma fold_max_ge_mem: "x \<in> set xs \<Longrightarrow> (x::nat) \<le> fold max xs a"
proof (induction xs arbitrary: a)
  case Nil then show ?case by simp
next
  case (Cons y ys)
  show ?case
  proof (cases "x = y")
    case True
    have "y \<le> max y a" by simp
    also have "\<dots> \<le> fold max ys (max y a)" by (rule fold_max_ge_init)
    finally show ?thesis using True by simp
  next
    case False
    with Cons.prems have "x \<in> set ys" by simp
    then show ?thesis using Cons.IH by simp
  qed
qed

lemma next_tag_id_fresh: "(next_tag_id db, nm) \<notin> set (tags_tbl db)"
proof
  assume "(next_tag_id db, nm) \<in> set (tags_tbl db)"
  then have "next_tag_id db \<in> set (map fst (tags_tbl db))" by force
  then have "next_tag_id db \<le> fold max (map fst (tags_tbl db)) (tags_seq db)"
    by (rule fold_max_ge_mem)
  then show False by (simp add: next_tag_id_def)
qed

lemma schema_ok_fk:
  "schema_ok db \<Longrightarrow> (i, t) \<in> set (image_tags db) \<Longrightarrow>
     i \<in> image_ids db \<and> (\<exists>nm. (t, nm) \<in> set (tags_tbl db))"
  by (fastforce simp: schema_ok_def list_all_iff)

lemma distinct_map_fst_eq:
  "distinct (map fst xs) \<Longrightarrow> (k, a) \<in> set xs \<Longrightarrow> (k, b) \<in> set xs \<Longrightarrow> a = b"
  by (rule eq_key_imp_eq_value)

lemma distinct_map_snd_eq:
  "distinct (map snd xs) \<Longrightarrow> (a, v) \<in> set xs \<Longrightarrow> (b, v) \<in> set xs \<Longrightarrow> a = b"
proof -
  assume d: "distinct (map snd xs)" and a: "(a, v) \<in> set xs" and b: "(b, v) \<in> set xs"
  from d have "inj_on snd (set xs)" by (simp add: distinct_map)
  then have "(a, v) = (b, v)"
    using a b unfolding inj_on_def by force
  then show ?thesis by simp
qed

lemma schema_okI:
  assumes "distinct (map row_id (images db))" "distinct (map fst (tags_tbl db))"
    "distinct (map snd (tags_tbl db))" "distinct (image_tags db)"
    "\<And>i t. (i, t) \<in> set (image_tags db) \<Longrightarrow> i \<in> image_ids db \<and> t \<in> fst ` set (tags_tbl db)"
  shows "schema_ok db"
  using assms by (auto simp: schema_ok_def list_all_iff)

lemma schema_okD:
  assumes "schema_ok db"
  shows "distinct (map row_id (images db))" "distinct (map fst (tags_tbl db))"
    "distinct (map snd (tags_tbl db))" "distinct (image_tags db)"
  using assms by (simp_all add: schema_ok_def)

lemma schema_ok_fk':
  "schema_ok db \<Longrightarrow> (i, t) \<in> set (image_tags db) \<Longrightarrow>
     i \<in> image_ids db \<and> t \<in> fst ` set (tags_tbl db)"
  by (auto simp: schema_ok_def list_all_iff)

lemma schema_ok_name_id:
  "schema_ok db \<Longrightarrow> (a, v) \<in> set (tags_tbl db) \<Longrightarrow> (b, v) \<in> set (tags_tbl db) \<Longrightarrow> a = b"
  by (auto simp: schema_ok_def dest: distinct_map_snd_eq)

lemma schema_ok_id_name:
  "schema_ok db \<Longrightarrow> (k, a) \<in> set (tags_tbl db) \<Longrightarrow> (k, b) \<in> set (tags_tbl db) \<Longrightarrow> a = b"
  by (auto simp: schema_ok_def dest: eq_key_imp_eq_value)

lemma set_js_Set [simp]: "set (js_Set xs) = set xs"
  by (induction xs) auto

lemma distinct_js_Set [simp]: "distinct (js_Set xs)"
  by (induction xs) auto

lemma set_select_tag_rows:
  "set (select_tag_rows db i n) = {(i, tid) |tid. (tid, n) \<in> set (tags_tbl db)}"
  by (auto simp: select_tag_rows_def)

lemma select_tag_rows_Nil: "select_tag_rows db i n = [] \<longleftrightarrow> n \<notin> tag_names db"
proof -
  have "select_tag_rows db i n = [] \<longleftrightarrow> set (select_tag_rows db i n) = {}" by simp
  also have "\<dots> \<longleftrightarrow> n \<notin> tag_names db"
    unfolding set_select_tag_rows by (force simp: tag_names_def)
  finally show ?thesis .
qed

text \<open>The effect of \<open>INSERT OR IGNORE INTO tags\<close> on a database that satisfies the schema.\<close>

lemma exec_InsertOrIgnoreTag:
  assumes ok: "schema_ok db"
  shows "\<exists>db' c. exec db (InsertOrIgnoreTag n) = Inr (db', c) \<and>
    schema_ok db' \<and> images db' = images db \<and>
    tag_names db' = insert n (tag_names db) \<and>
    (\<forall>j. linked db' j = linked db j)"
proof (cases "n \<in> tag_names db")
  case True
  show ?thesis
  proof (intro exI[of _ db] exI[of _ 0] conjI allI)
    show "exec db (InsertOrIgnoreTag n) = Inr (db, 0)" using True by simp
    show "tag_names db = insert n (tag_names db)" using True by auto
  qed (simp_all add: ok)
next
  case False
  define k where "k = next_tag_id db"
  define db' where "db' = db\<lparr>tags_tbl := tags_tbl db @ [(k, n)], tags_seq := k\<rparr>"
  have fresh: "\<And>nm. (k, nm) \<notin> set (tags_tbl db)" unfolding k_def by (rule next_tag_id_fresh)
  then have fresh': "k \<notin> fst ` set (tags_tbl db)" by force
  show ?thesis
  proof (intro exI[of _ db'] exI[of _ 1] conjI allI)
    show "exec db (InsertOrIgnoreTag n) = Inr (db', 1)"
      using False by (simp add: db'_def k_def)
    show "images db' = images db" by (simp add: db'_def)
    show "tag_names db' = insert n (tag_names db)" by (auto simp: db'_def tag_names_def)
    show "schema_ok db'"
    proof (rule schema_okI)
      show "distinct (map row_id (images db'))" using schema_okD(1)[OF ok] by (simp add: db'_def)
      show "distinct (map fst (tags_tbl db'))" using schema_okD(2)[OF ok] fresh' by (simp add: db'_def)
      show "distinct (map snd (tags_tbl db'))" using schema_okD(3)[OF ok] False
        by (simp add: db'_def tag_names_def)
      show "distinct (image_tags db')" using schema_okD(4)[OF ok] by (simp add: db'_def)
      show "i \<in> image_ids db' \<and> t \<in> fst ` set (tags_tbl db')" if "(i, t) \<in> set (image_tags db')" for i t
        using schema_ok_fk'[OF ok, of i t] that by (simp add: db'_def image_ids_def)
    qed
    show "linked db' j = linked db j" for j
    proof -
      have "(j, k) \<notin> set (image_tags db)"
        using schema_ok_fk[OF ok] fresh by blast
      then show ?thesis
        by (auto simp: linked_iff db'_def)
    qed
  qed
qed

text \<open>The effect of \<open>INSERT OR IGNORE INTO image_tags\<close>.\<close>

lemma exec_InsertOrIgnoreImageTag:
  assumes ok: "schema_ok db" and i: "i \<in> image_ids db"
  shows "\<exists>db' c. exec db (InsertOrIgnoreImageTag i n) = Inr (db', c) \<and>
    schema_ok db' \<and> images db' = images db \<and>
    tags_tbl db' = tags_tbl db \<and>
    (\<forall>j. linked db' j = (if j = i then linked db i \<union> ({n} \<inter> tag_names db) else linked db j))"
proof -
  define rows where
    "rows = filter (\<lambda>r. r \<notin> set (image_tags db)) (js_Set (select_tag_rows db i n))"
  define db' where "db' = db\<lparr>image_tags := image_tags db @ rows\<rparr>"
  have rows_set: "set rows = {(i, tid) |tid. (tid, n) \<in> set (tags_tbl db) \<and> (i, tid) \<notin> set (image_tags db)}"
    by (auto simp: rows_def set_select_tag_rows)
  have rows_d: "distinct rows" by (simp add: rows_def)
  show ?thesis
  proof (intro exI[of _ db'] exI[of _ "length rows"] conjI allI)
    show "exec db (InsertOrIgnoreImageTag i n) = Inr (db', length rows)"
      using i by (simp add: db'_def rows_def Let_def)
    show "images db' = images db" "tags_tbl db' = tags_tbl db" by (simp_all add: db'_def)
    show "schema_ok db'"
    proof (rule schema_okI)
      show "distinct (map row_id (images db'))" using schema_okD(1)[OF ok] by (simp add: db'_def)
      show "distinct (map fst (tags_tbl db'))" using schema_okD(2)[OF ok] by (simp add: db'_def)
      show "distinct (map snd (tags_tbl db'))" using schema_okD(3)[OF ok] by (simp add: db'_def)
      show "distinct (image_tags db')" using schema_okD(4)[OF ok] rows_d rows_set
        by (auto simp: db'_def)
      show "j \<in> image_ids db' \<and> t \<in> fst ` set (tags_tbl db')" if "(j, t) \<in> set (image_tags db')" for j t
      proof -
        from that have "(j, t) \<in> set (image_tags db) \<or> (j, t) \<in> set rows" by (simp add: db'_def)
        then have "j \<in> image_ids db \<and> t \<in> fst ` set (tags_tbl db)"
        proof
          assume "(j, t) \<in> set (image_tags db)" then show ?thesis by (rule schema_ok_fk'[OF ok])
        next
          assume "(j, t) \<in> set rows"
          then have "j = i" "(t, n) \<in> set (tags_tbl db)" by (auto simp: rows_set)
          then show ?thesis using i by force
        qed
        then show ?thesis by (simp add: db'_def image_ids_def)
      qed
    qed
    show "linked db' j = (if j = i then linked db i \<union> ({n} \<inter> tag_names db) else linked db j)" for j
    proof (cases "j = i")
      case False
      then show ?thesis by (auto simp: linked_iff db'_def rows_set)
    next
      case True
      have "linked db' i = linked db i \<union> ({n} \<inter> tag_names db)"
      proof (rule set_eqI)
        fix nm
        show "nm \<in> linked db' i \<longleftrightarrow> nm \<in> linked db i \<union> ({n} \<inter> tag_names db)"
        proof
          assume "nm \<in> linked db' i"
          then obtain tid where t: "(tid, nm) \<in> set (tags_tbl db)"
            and m: "(i, tid) \<in> set (image_tags db) \<or> (i, tid) \<in> set rows"
            by (auto simp: linked_iff db'_def)
          from m show "nm \<in> linked db i \<union> ({n} \<inter> tag_names db)"
          proof
            assume "(i, tid) \<in> set (image_tags db)"
            with t show ?thesis by (auto simp: linked_iff)
          next
            assume "(i, tid) \<in> set rows"
            then have "(tid, n) \<in> set (tags_tbl db)" by (auto simp: rows_set)
            with t have "nm = n" using schema_ok_id_name[OF ok] by blast
            with t show ?thesis by (force simp: tag_names_def)
          qed
        next
          assume "nm \<in> linked db i \<union> ({n} \<inter> tag_names db)"
          then show "nm \<in> linked db' i"
          proof
            assume "nm \<in> linked db i"
            then show ?thesis by (auto simp: linked_iff db'_def)
          next
            assume "nm \<in> {n} \<inter> tag_names db"
            then obtain tid where "nm = n" "(tid, n) \<in> set (tags_tbl db)"
              by (auto simp: tag_names_def)
            then show ?thesis
              by (cases "(i, tid) \<in> set (image_tags db)") (auto simp: linked_iff db'_def rows_set)
          qed
        qed
      qed
      with True show ?thesis by simp
    qed
  qed
qed

lemma exec_DeleteImageTag:
  assumes ok: "schema_ok db"
  shows "\<exists>db' c. exec db (DeleteImageTag i n) = Inr (db', c) \<and>
    schema_ok db' \<and> images db' = images db \<and>
    tags_tbl db' = tags_tbl db \<and>
    (\<forall>j. linked db' j = (if j = i then linked db i - {n} else linked db j))"
proof (cases "select_tag_rows db i n")
  case Nil
  then have "n \<notin> tag_names db" by (simp add: select_tag_rows_Nil)
  then have "n \<notin> linked db i" by (force simp: linked_iff tag_names_def)
  then have l: "linked db i - {n} = linked db i" by simp
  show ?thesis
  proof (intro exI[of _ db] exI[of _ 0] conjI allI)
    show "exec db (DeleteImageTag i n) = Inr (db, 0)" using Nil by simp
  qed (simp_all add: ok l)
next
  case (Cons r rest)
  then have "r \<in> set (select_tag_rows db i n)" by simp
  then obtain tid where r: "r = (i, tid)" and t: "(tid, n) \<in> set (tags_tbl db)"
    by (auto simp: set_select_tag_rows)
  define db' where "db' = db\<lparr>image_tags := filter (\<lambda>x. x \<noteq> r) (image_tags db)\<rparr>"
  show ?thesis
  proof (intro exI[of _ db'] exI[of _ "length (filter (\<lambda>x. x = r) (image_tags db))"] conjI allI)
    show "exec db (DeleteImageTag i n) = Inr (db', length (filter (\<lambda>x. x = r) (image_tags db)))"
      using Cons by (simp add: db'_def)
    show "images db' = images db" "tags_tbl db' = tags_tbl db" by (simp_all add: db'_def)
    show "schema_ok db'"
    proof (rule schema_okI)
      show "distinct (map row_id (images db'))" using schema_okD(1)[OF ok] by (simp add: db'_def)
      show "distinct (map fst (tags_tbl db'))" using schema_okD(2)[OF ok] by (simp add: db'_def)
      show "distinct (map snd (tags_tbl db'))" using schema_okD(3)[OF ok] by (simp add: db'_def)
      show "distinct (image_tags db')" using schema_okD(4)[OF ok] by (simp add: db'_def)
      show "j \<in> image_ids db' \<and> u \<in> fst ` set (tags_tbl db')" if "(j, u) \<in> set (image_tags db')" for j u
        using schema_ok_fk'[OF ok, of j u] that by (simp add: db'_def image_ids_def)
    qed
    show "linked db' j = (if j = i then linked db i - {n} else linked db j)" for j
    proof (cases "j = i")
      case False
      then show ?thesis by (auto simp: linked_iff db'_def r)
    next
      case True
      have "linked db' i = linked db i - {n}"
      proof (rule set_eqI)
        fix nm
        show "nm \<in> linked db' i \<longleftrightarrow> nm \<in> linked db i - {n}"
        proof
          assume "nm \<in> linked db' i"
          then obtain u where u: "(u, nm) \<in> set (tags_tbl db)" "(i, u) \<in> set (image_tags db)" "u \<noteq> tid"
            by (auto simp: linked_iff db'_def r)
          have "nm \<noteq> n"
          proof
            assume "nm = n"
            with u(1) t have "u = tid" using schema_ok_name_id[OF ok] by blast
            with u(3) show False by simp
          qed
          with u show "nm \<in> linked db i - {n}" by (auto simp: linked_iff)
        next
          assume a: "nm \<in> linked db i - {n}"
          then obtain u where u: "(u, nm) \<in> set (tags_tbl db)" "(i, u) \<in> set (image_tags db)"
            by (auto simp: linked_iff)
          have "u \<noteq> tid"
          proof
            assume "u = tid"
            with u(1) t have "nm = n" using schema_ok_id_name[OF ok] by blast
            with a show False by simp
          qed
          with u show "nm \<in> linked db' i" by (auto simp: linked_iff db'_def r)
        qed
      qed
      with True show ?thesis by simp
    qed
  qed
qed

lemma exec_UpdateExpiry:
  assumes ok: "schema_ok db"
  shows "\<exists>db' c. exec db (UpdateExpiry e i) = Inr (db', c) \<and>
    schema_ok db' \<and> map row_id (images db') = map row_id (images db) \<and>
    tags_tbl db' = tags_tbl db \<and> image_tags db' = image_tags db"
proof -
  define db' where
    "db' = db\<lparr>images := map (\<lambda>r. if row_id r = i then r\<lparr>expiry_time := e\<rparr> else r) (images db)\<rparr>"
  have ids: "map row_id (images db') = map row_id (images db)"
    by (simp add: db'_def comp_def if_distrib cong: if_cong)
  show ?thesis
  proof (intro exI[of _ db'] exI[of _ "length (filter (\<lambda>r. row_id r = i) (images db))"] conjI allI)
    show "exec db (UpdateExpiry e i) = Inr (db', length (filter (\<lambda>r. row_id r = i) (images db)))"
      by (simp add: db'_def)
    show "map row_id (images db') = map row_id (images db)" by (rule ids)
    show "tags_tbl db' = tags_tbl db" "image_tags db' = image_tags db" by (simp_all add: db'_def)
    show "schema_ok db'"
    proof (rule schema_okI)
      show "distinct (map row_id (images db'))" using schema_okD(1)[OF ok] by (simp only: ids)
      show "distinct (map fst (tags_tbl db'))" using schema_okD(2)[OF ok] by (simp add: db'_def)
      show "distinct (map snd (tags_tbl db'))" using schema_okD(3)[OF ok] by (simp add: db'_def)
      show "distinct (image_tags db')" using schema_okD(4)[OF ok] by (simp add: db'_def)
      show "j \<in> image_ids db' \<and> u \<in> fst ` set (tags_tbl db')" if "(j, u) \<in> set (image_tags db')" for j u
      proof -
        have "image_ids db' = image_ids db" unfolding image_ids_def by (simp only: ids)
        moreover from that have "(j, u) \<in> set (image_tags db)" by (simp add: db'_def)
        ultimately show ?thesis using schema_ok_fk'[OF ok, of j u] by (simp add: db'_def)
      qed
    qed
  qed
qed

lemma exec_all_append:
  "exec_all db (xs @ ys) =
     (case exec_all db xs of Inl e \<Rightarrow> Inl e | Inr db' \<Rightarrow> exec_all db' ys)"
  by (induction xs arbitrary: db) (auto split: sum.splits)

lemma linked_cong:
  "tags_tbl db' = tags_tbl db \<Longrightarrow> image_tags db' = image_tags db \<Longrightarrow> linked db' j = linked db j"
  by (simp add: linked_def getImage_tags_def)

lemma image_ids_cong: "images db' = images db \<Longrightarrow> image_ids db' = image_ids db"
  by (simp add: image_ids_def)

lemma tag_names_cong: "tags_tbl db' = tags_tbl db \<Longrightarrow> tag_names db' = tag_names db"
  by (simp add: tag_names_def)

lemma exec_all_create_tags:
  "schema_ok db \<Longrightarrow>
   \<exists>db'. exec_all db (map InsertOrIgnoreTag ts) = Inr db' \<and> schema_ok db' \<and>
         images db' = images db \<and> tag_names db' = tag_names db \<union> set ts \<and>
         (\<forall>j. linked db' j = linked db j)"
proof (induction ts arbitrary: db)
  case Nil
  then show ?case by simp
next
  case (Cons t ts)
  from exec_InsertOrIgnoreTag[OF Cons.prems(1), where n=t] obtain db1 c where
    e: "exec db (InsertOrIgnoreTag t) = Inr (db1, c)" and ok1: "schema_ok db1"
    and i1: "images db1 = images db" and n1: "tag_names db1 = insert t (tag_names db)"
    and l1: "\<forall>j. linked db1 j = linked db j"
    by blast
  from Cons.IH[OF ok1] obtain db' where
    e': "exec_all db1 (map InsertOrIgnoreTag ts) = Inr db'" and ok': "schema_ok db'"
    and i': "images db' = images db1" and n': "tag_names db' = tag_names db1 \<union> set ts"
    and l': "\<forall>j. linked db' j = linked db1 j"
    by blast
  have "exec_all db (map InsertOrIgnoreTag (t # ts)) = Inr db'" using e e' by simp
  moreover have "tag_names db' = tag_names db \<union> set (t # ts)" using n1 n' by auto
  ultimately show ?case using ok' i1 i' l1 l' by auto
qed

lemma exec_all_delete_links:
  "schema_ok db \<Longrightarrow>
   \<exists>db'. exec_all db (map (DeleteImageTag i) ds) = Inr db' \<and> schema_ok db' \<and>
         images db' = images db \<and> tags_tbl db' = tags_tbl db \<and>
         (\<forall>j. linked db' j = (if j = i then linked db i - set ds else linked db j))"
proof (induction ds arbitrary: db)
  case Nil
  then show ?case by simp
next
  case (Cons d ds)
  from exec_DeleteImageTag[OF Cons.prems(1), where i=i and n=d] obtain db1 c where
    e: "exec db (DeleteImageTag i d) = Inr (db1, c)" and ok1: "schema_ok db1"
    and i1: "images db1 = images db" and n1: "tags_tbl db1 = tags_tbl db"
    and l1: "\<forall>j. linked db1 j = (if j = i then linked db i - {d} else linked db j)"
    by blast
  from Cons.IH[OF ok1] obtain db' where
    e': "exec_all db1 (map (DeleteImageTag i) ds) = Inr db'" and ok': "schema_ok db'"
    and i': "images db' = images db1" and n': "tags_tbl db' = tags_tbl db1"
    and l': "\<forall>j. linked db' j = (if j = i then linked db1 i - set ds else linked db1 j)"
    by blast
  have "exec_all db (map (DeleteImageTag i) (d # ds)) = Inr db'" using e e' by simp
  moreover have "\<forall>j. linked db' j = (if j = i then linked db i - set (d # ds) else linked db j)"
    using l1 l' by auto
  ultimately show ?case using ok' i1 i' n1 n' by auto
qed

lemma exec_all_insert_links:
  "schema_ok db \<Longrightarrow> i \<in> image_ids db \<Longrightarrow>
   \<exists>db'. exec_all db (map (InsertOrIgnoreImageTag i) as) = Inr db' \<and> schema_ok db' \<and>
         images db' = images db \<and> tags_tbl db' = tags_tbl db \<and>
         (\<forall>j. linked db' j = (if j = i then linked db i \<union> (set as \<inter> tag_names db) else linked db j))"
proof (induction as arbitrary: db)
  case Nil
  then show ?case by simp
next
  case (Cons a as)
  from exec_InsertOrIgnoreImageTag[OF Cons.prems(1) Cons.prems(2), where n=a] obtain db1 c where
    e: "exec db (InsertOrIgnoreImageTag i a) = Inr (db1, c)" and ok1: "schema_ok db1"
    and i1: "images db1 = images db" and n1: "tags_tbl db1 = tags_tbl db"
    and l1: "\<forall>j. linked db1 j = (if j = i then linked db i \<union> ({a} \<inter> tag_names db) else linked db j)"
    by blast
  have "i \<in> image_ids db1" using Cons.prems(2) i1 by (simp add: image_ids_def)
  from Cons.IH[OF ok1 this] obtain db' where
    e': "exec_all db1 (map (InsertOrIgnoreImageTag i) as) = Inr db'" and ok': "schema_ok db'"
    and i': "images db' = images db1" and n': "tags_tbl db' = tags_tbl db1"
    and l': "\<forall>j. linked db' j = (if j = i then linked db1 i \<union> (set as \<inter> tag_names db1) else linked db1 j)"
    by blast
  have tn: "tag_names db1 = tag_names db" using n1 by (rule tag_names_cong)
  have "exec_all db (map (InsertOrIgnoreImageTag i) (a # as)) = Inr db'" using e e' by simp
  moreover have "\<forall>j. linked db' j = (if j = i then linked db i \<union> (set (a # as) \<inter> tag_names db) else linked db j)"
    using l1 l' tn by auto
  ultimately show ?case using ok' i1 i' n1 n' by auto
qed

lemma exec_all_create_and_link:
  "schema_ok db \<Longrightarrow> i \<in> image_ids db \<Longrightarrow>
   \<exists>db'. exec_all db (concat (map (\<lambda>t. [InsertOrIgnoreTag t, InsertOrIgnoreImageTag i t]) as)) = Inr db' \<and>
         schema_ok db' \<and> images db' = images db \<and> tag_names db' = tag_names db \<union> set as \<and>
         (\<forall>j. linked db' j = (if j = i then linked db i \<union> set as else linked db j))"
proof (induction as arbitrary: db)
  case Nil
  then show ?case by simp
next
  case (Cons a as)
  from exec_InsertOrIgnoreTag[OF Cons.prems(1), where n=a] obtain db1 c where
    e1: "exec db (InsertOrIgnoreTag a) = Inr (db1, c)" and ok1: "schema_ok db1"
    and i1: "images db1 = images db" and n1: "tag_names db1 = insert a (tag_names db)"
    and l1: "\<forall>j. linked db1 j = linked db j"
    by blast
  have m1: "i \<in> image_ids db1" using Cons.prems(2) i1 by (simp add: image_ids_def)
  from exec_InsertOrIgnoreImageTag[OF ok1 m1, where n=a] obtain db2 c2 where
    e2: "exec db1 (InsertOrIgnoreImageTag i a) = Inr (db2, c2)" and ok2: "schema_ok db2"
    and i2: "images db2 = images db1" and n2: "tags_tbl db2 = tags_tbl db1"
    and l2: "\<forall>j. linked db2 j = (if j = i then linked db1 i \<union> ({a} \<inter> tag_names db1) else linked db1 j)"
    by blast
  have m2: "i \<in> image_ids db2" using m1 i2 by (simp add: image_ids_def)
  from Cons.IH[OF ok2 m2] obtain db' where
    e': "exec_all db2 (concat (map (\<lambda>t. [InsertOrIgnoreTag t, InsertOrIgnoreImageTag i t]) as)) = Inr db'"
    and ok': "schema_ok db'"
    and i': "images db' = images db2" and n': "tag_names db' = tag_names db2 \<union> set as"
    and l': "\<forall>j. linked db' j = (if j = i then linked db2 i \<union> set as else linked db2 j)"
    by blast
  have tn: "tag_names db2 = tag_names db1" using n2 by (rule tag_names_cong)
  have "exec_all db (concat (map (\<lambda>t. [InsertOrIgnoreTag t, InsertOrIgnoreImageTag i t]) (a # as))) = Inr db'"
    using e1 e2 e' by simp
  moreover have "tag_names db' = tag_names db \<union> set (a # as)" using n' tn n1 by auto
  moreover have "\<forall>j. linked db' j = (if j = i then linked db i \<union> set (a # as) else linked db j)"
    using l1 l2 l' n1 by auto
  ultimately show ?case using ok' i1 i2 i' by auto
qed

lemma schema_ok_sample_db: "schema_ok sample_db"
  by (simp add: schema_ok_def sample_defs image_ids_def)

lemma getImage_sample_img1: "getImage sample_db ''img1'' = Some sample_img1"
  by (simp add: getImage_def getImage_tags_def sample_img1_def sample_defs)

lemma getImage_row:
  assumes "getImage db i = Some m"
  shows "\<exists>r. r \<in> set (images db) \<and> row_id r = i \<and> m = rowToMetadata r (getImage_tags db i)"
proof -
  from assms obtain r rs where f: "filter (\<lambda>r. row_id r = i) (images db) = r # rs"
    and m: "m = rowToMetadata r (getImage_tags db i)"
    by (auto simp: getImage_def split: list.splits)
  from f have "r \<in> set (filter (\<lambda>r. row_id r = i) (images db))" by simp
  with m show ?thesis by auto
qed

lemma schema_ok_row_unique:
  assumes ok: "schema_ok db" and a: "r \<in> set (images db)" and b: "r' \<in> set (images db)"
    and e: "row_id r = row_id r'"
  shows "r = r'"
proof -
  from schema_okD(1)[OF ok] have "inj_on row_id (set (images db))" by (simp add: distinct_map)
  with a b e show ?thesis unfolding inj_on_def by blast
qed

lemma or_null_Some: "or_null x = Some e \<Longrightarrow> x = Some e \<and> e \<noteq> []"
  by (auto simp: or_null_def split: option.splits if_splits)

lemma updateImage_statements_same_tags:
  assumes "\<forall>ts. upd_tags updates = Some ts \<longrightarrow> set ts = set (tags image')"
  shows "updateImage_statements image' i updates =
           (case upd_expiryTime updates of None \<Rightarrow> [] | Some e \<Rightarrow> [UpdateExpiry (or_null (Some e)) i])"
  using assms
  by (auto simp: updateImage_statements_def Let_def filter_empty_conv split: option.splits)

section \<open>Updating an image\<close>

lemma linked_getImage: "getImage db i = Some m \<Longrightarrow> set (tags m) = linked db i"
  using getImage_Some_id[of db i m] by (simp add: linked_def)

lemma getImage_same_images:
  assumes "images db' = images db" and "getImage db i = Some m"
  shows "getImage db' i = Some (m\<lparr>tags := getImage_tags db' i\<rparr>)"
  using assms by (auto simp: getImage_def rowToMetadata_def split: list.splits)

lemma updateImage_run:
  assumes g: "getImage db i = Some image'"
    and e: "exec_all db (updateImage_statements image' i updates) = Inr db'"
  shows "updateImage db i updates = (Inr (getImage db' i), db')"
proof (cases "updateImage_statements image' i updates = []")
  case True
  with e have "db' = db" by simp
  with True g show ?thesis by (simp add: updateImage_def)
next
  case False
  with g e show ?thesis by (simp add: updateImage_def batch_def)
qed

lemma updateImage_statements_tags_only:
  "updateImage_statements image' i \<lparr>upd_tags = Some ts, upd_expiryTime = None\<rparr> =
     map (DeleteImageTag i) (filter (\<lambda>tag. tag \<notin> set ts) (js_Set (tags image'))) @
     concat (map (\<lambda>tag. [InsertOrIgnoreTag tag, InsertOrIgnoreImageTag i tag])
                 (filter (\<lambda>tag. tag \<notin> set (tags image')) (js_Set ts)))"
  by (simp add: updateImage_statements_def Let_def)

lemma updateImage_tags_effect:
  assumes ok: "schema_ok db" and g: "getImage db i = Some image'"
  shows "\<exists>db'. exec_all db (updateImage_statements image' i \<lparr>upd_tags = Some ts, upd_expiryTime = None\<rparr>) = Inr db' \<and>
           schema_ok db' \<and> images db' = images db \<and>
           tag_names db' = tag_names db \<union> (set ts - set (tags image')) \<and>
           (\<forall>j. linked db' j = (if j = i then set ts else linked db j))"
proof -
  define D where "D = filter (\<lambda>tag. tag \<notin> set ts) (js_Set (tags image'))"
  define A where "A = filter (\<lambda>tag. tag \<notin> set (tags image')) (js_Set ts)"
  have T1: "set (tags image') = linked db i" using g by (rule linked_getImage)
  have i: "i \<in> image_ids db" using getImage_Some_id[OF g] by simp
  have sD: "set D = linked db i - set ts" by (auto simp: D_def T1)
  have sA: "set A = set ts - linked db i" by (auto simp: A_def T1)
  from exec_all_delete_links[OF ok, of i D] obtain db1 where
    e1: "exec_all db (map (DeleteImageTag i) D) = Inr db1" and ok1: "schema_ok db1"
    and i1: "images db1 = images db" and t1: "tags_tbl db1 = tags_tbl db"
    and l1: "\<forall>j. linked db1 j = (if j = i then linked db i - set D else linked db j)"
    by blast
  have m1: "i \<in> image_ids db1" using i i1 by (simp add: image_ids_def)
  from exec_all_create_and_link[OF ok1 m1, of A] obtain db2 where
    e2: "exec_all db1 (concat (map (\<lambda>t. [InsertOrIgnoreTag t, InsertOrIgnoreImageTag i t]) A)) = Inr db2"
    and ok2: "schema_ok db2" and i2: "images db2 = images db1"
    and n2: "tag_names db2 = tag_names db1 \<union> set A"
    and l2: "\<forall>j. linked db2 j = (if j = i then linked db1 i \<union> set A else linked db1 j)"
    by blast
  have e: "exec_all db (updateImage_statements image' i \<lparr>upd_tags = Some ts, upd_expiryTime = None\<rparr>) = Inr db2"
    unfolding updateImage_statements_tags_only D_def[symmetric] A_def[symmetric]
    by (simp add: exec_all_append e1 e2)
  have tn: "tag_names db1 = tag_names db" using t1 by (rule tag_names_cong)
  have n: "tag_names db2 = tag_names db \<union> (set ts - set (tags image'))"
    using n2 tn sA T1 by simp
  have l: "\<forall>j. linked db2 j = (if j = i then set ts else linked db j)"
    using l1 l2 sD sA by auto
  from e ok2 i1 i2 n l show ?thesis by auto
qed

text \<open>
  Claim C3. On a database that satisfies the schema: if no image has the id,
  \<open>updateImage\<close> returns the not-found signal and the database is unchanged. For an
  existing image with current tags T1 and any new tag list T2, the statements built are
  exactly the association deletes for T1 - T2 and the tag creations and association
  inserts for T2 - T1; the call succeeds, \<open>getImage\<close> afterwards returns the record
  with tag set T2, the schema invariants still hold (no dangling association), and the
  tags of every other image are unchanged.
\<close>

theorem updateImage_replaces_tags:
  assumes ok: "schema_ok db"
  shows "(getImage db i = None \<longrightarrow> updateImage db i updates = (Inr None, db)) \<and>
         (\<forall>image'. getImage db i = Some image' \<longrightarrow>
            set (updateImage_statements image' i \<lparr>upd_tags = Some ts, upd_expiryTime = None\<rparr>) =
              DeleteImageTag i ` (set (tags image') - set ts) \<union>
              InsertOrIgnoreTag ` (set ts - set (tags image')) \<union>
              InsertOrIgnoreImageTag i ` (set ts - set (tags image')) \<and>
            (\<exists>db'. updateImage db i \<lparr>upd_tags = Some ts, upd_expiryTime = None\<rparr> =
                     (Inr (Some (image'\<lparr>tags := getImage_tags db' i\<rparr>)), db') \<and>
                   getImage db' i = Some (image'\<lparr>tags := getImage_tags db' i\<rparr>) \<and>
                   set (getImage_tags db' i) = set ts \<and>
                   schema_ok db' \<and>
                   images db' = images db \<and>
                   tag_names db' = tag_names db \<union> (set ts - set (tags image')) \<and>
                   (\<forall>j. j \<noteq> i \<longrightarrow> linked db' j = linked db j)))"
proof (intro conjI allI impI)
  assume "getImage db i = None"
  then show "updateImage db i updates = (Inr None, db)" by (simp add: updateImage_def)
next
  fix image'
  assume g: "getImage db i = Some image'"
  show "set (updateImage_statements image' i \<lparr>upd_tags = Some ts, upd_expiryTime = None\<rparr>) =
              DeleteImageTag i ` (set (tags image') - set ts) \<union>
              InsertOrIgnoreTag ` (set ts - set (tags image')) \<union>
              InsertOrIgnoreImageTag i ` (set ts - set (tags image'))"
    unfolding updateImage_statements_tags_only by auto
  from updateImage_tags_effect[OF ok g, of ts] obtain db' where
    e: "exec_all db (updateImage_statements image' i \<lparr>upd_tags = Some ts, upd_expiryTime = None\<rparr>) = Inr db'"
    and ok': "schema_ok db'" and i': "images db' = images db"
    and n': "tag_names db' = tag_names db \<union> (set ts - set (tags image'))"
    and l': "\<forall>j. linked db' j = (if j = i then set ts else linked db j)"
    by blast
  have g': "getImage db' i = Some (image'\<lparr>tags := getImage_tags db' i\<rparr>)"
    using i' g by (rule getImage_same_images)
  have u: "updateImage db i \<lparr>upd_tags = Some ts, upd_expiryTime = None\<rparr> =
             (Inr (Some (image'\<lparr>tags := getImage_tags db' i\<rparr>)), db')"
    using updateImage_run[OF g e] g' by simp
  have s: "set (getImage_tags db' i) = set ts" using l' by (simp add: linked_def)
  have o: "\<forall>j. j \<noteq> i \<longrightarrow> linked db' j = linked db j" using l' by simp
  from u g' s ok' i' n' o
  show "\<exists>db'. updateImage db i \<lparr>upd_tags = Some ts, upd_expiryTime = None\<rparr> =
                     (Inr (Some (image'\<lparr>tags := getImage_tags db' i\<rparr>)), db') \<and>
                   getImage db' i = Some (image'\<lparr>tags := getImage_tags db' i\<rparr>) \<and>
                   set (getImage_tags db' i) = set ts \<and>
                   schema_ok db' \<and>
                   images db' = images db \<and>
                   tag_names db' = tag_names db \<union> (set ts - set (tags image')) \<and>
                   (\<forall>j. j \<noteq> i \<longrightarrow> linked db' j = linked db j)"
    by blast
qed

theorem updateImage_replaces_tags_witness:
  "schema_ok sample_db \<and>
   getImage sample_db ''img1'' = Some sample_img1 \<and>
   tags sample_img1 = [''cat'', ''orange''] \<and>
   set (getImage_tags (snd (updateImage sample_db ''img1'' replace_tags)) ''img1'') = {''orange'', ''dog''} \<and>
   schema_ok (snd (updateImage sample_db ''img1'' replace_tags)) \<and>
   getImage sample_db ''ghost'' = None \<and>
   updateImage sample_db ''ghost'' replace_tags = (Inr None, sample_db)"
proof -
  have g0: "getImage sample_db ''ghost'' = None"
    by (simp add: getImage_def sample_defs)
  have n: "updateImage sample_db ''ghost'' replace_tags = (Inr None, sample_db)"
    using updateImage_replaces_tags[OF schema_ok_sample_db, of "''ghost''" replace_tags "[]",
      THEN conjunct1, rule_format, OF g0] .
  from updateImage_replaces_tags[OF schema_ok_sample_db, of "''img1''" replace_tags "[''orange'', ''dog'']",
     THEN conjunct2, rule_format, OF getImage_sample_img1, THEN conjunct2]
  obtain db' where
    u: "updateImage sample_db ''img1'' \<lparr>upd_tags = Some [''orange'', ''dog''], upd_expiryTime = None\<rparr> =
          (Inr (Some (sample_img1\<lparr>tags := getImage_tags db' ''img1''\<rparr>)), db')"
    and s: "set (getImage_tags db' ''img1'') = set [''orange'', ''dog'']"
    and o: "schema_ok db'"
    by (elim exE conjE) (rule that)
  from u have sn: "snd (updateImage sample_db ''img1'' replace_tags) = db'"
    by (simp add: replace_tags_def)
  have tg: "tags sample_img1 = [''cat'', ''orange'']" by (simp add: sample_img1_def rowToMetadata_def)
  from s have s': "set (getImage_tags db' ''img1'') = {''orange'', ''dog''}" by simp
  from schema_ok_sample_db getImage_sample_img1 tg s' o g0 n show ?thesis
    unfolding sn by (intro conjI)
qed

text \<open>
  Claim C7, as the code has it. For an existing image: an update that supplies no
  \<open>expiryTime\<close> and no tag set other than the current one builds no statement, issues
  no batch and leaves the database unchanged. An update that supplies an \<open>expiryTime\<close>
  always ends with an UPDATE statement, so a batch is issued; when the supplied value
  equals the current one (and the tags are unchanged) that batch is the single UPDATE
  and the database after it is the same as before.
\<close>

theorem updateImage_unchanged_values:
  assumes ok: "schema_ok db" and g: "getImage db i = Some image'"
  shows "(upd_expiryTime updates = None \<and>
          (\<forall>ts. upd_tags updates = Some ts \<longrightarrow> set ts = set (tags image')) \<longrightarrow>
            updateImage_statements image' i updates = [] \<and>
            updateImage db i updates = (Inr (Some image'), db)) \<and>
         (\<forall>e. upd_expiryTime updates = Some e \<longrightarrow>
            updateImage_statements image' i updates \<noteq> [] \<and>
            last (updateImage_statements image' i updates) = UpdateExpiry (or_null (Some e)) i) \<and>
         (\<forall>e. upd_expiryTime updates = Some e \<and> expiryTime image' = Some e \<and>
              (\<forall>ts. upd_tags updates = Some ts \<longrightarrow> set ts = set (tags image')) \<longrightarrow>
            updateImage_statements image' i updates = [UpdateExpiry (Some e) i] \<and>
            updateImage db i updates = (Inr (Some image'), db))"
proof (intro conjI allI impI)
  assume a: "upd_expiryTime updates = None \<and>
          (\<forall>ts. upd_tags updates = Some ts \<longrightarrow> set ts = set (tags image'))"
  then show s: "updateImage_statements image' i updates = []"
    by (simp add: updateImage_statements_same_tags)
  then show "updateImage db i updates = (Inr (Some image'), db)"
    using g by (simp add: updateImage_def)
next
  fix e assume "upd_expiryTime updates = Some e"
  then show "updateImage_statements image' i updates \<noteq> []"
    and "last (updateImage_statements image' i updates) = UpdateExpiry (or_null (Some e)) i"
    by (simp_all add: updateImage_statements_def)
next
  fix e
  assume a: "upd_expiryTime updates = Some e \<and> expiryTime image' = Some e \<and>
              (\<forall>ts. upd_tags updates = Some ts \<longrightarrow> set ts = set (tags image'))"
  from getImage_row[OF g] obtain r where r: "r \<in> set (images db)" "row_id r = i"
    and m: "image' = rowToMetadata r (getImage_tags db i)" by blast
  from a m have "or_null (expiry_time r) = Some e" by (simp add: rowToMetadata_def)
  then have ex: "expiry_time r = Some e" and ne: "e \<noteq> []" using or_null_Some by blast+
  from ne have on: "or_null (Some e) = Some e" by (simp add: or_null_def)
  from a show s: "updateImage_statements image' i updates = [UpdateExpiry (Some e) i]"
    by (simp add: updateImage_statements_same_tags on)
  have "map (\<lambda>x. if row_id x = i then x\<lparr>expiry_time := Some e\<rparr> else x) (images db) = images db"
  proof (rule map_idI)
    fix x assume x: "x \<in> set (images db)"
    show "(if row_id x = i then x\<lparr>expiry_time := Some e\<rparr> else x) = x"
    proof (cases "row_id x = i")
      case True
      with r x have "x = r" using schema_ok_row_unique[OF ok] by blast
      with ex True show ?thesis by simp
    qed simp
  qed
  then have "exec_all db [UpdateExpiry (Some e) i] = Inr db" by simp
  with s have "exec_all db (updateImage_statements image' i updates) = Inr db" by simp
  from updateImage_run[OF g this] g
  show "updateImage db i updates = (Inr (Some image'), db)" by simp
qed

theorem updateImage_unchanged_values_witness:
  "schema_ok sample_db \<and> getImage sample_db ''img1'' = Some sample_img1 \<and>
   updateImage sample_db ''img1'' same_tags = (Inr (Some sample_img1), sample_db) \<and>
   expiryTime sample_img1 = Some ''2030-01-01'' \<and>
   updateImage sample_db ''img1'' same_values = (Inr (Some sample_img1), sample_db)"
proof -
  have tg: "set [''orange'', ''cat''] = set (tags sample_img1)"
    by (simp add: sample_img1_def rowToMetadata_def insert_commute)
  have ex: "expiryTime sample_img1 = Some ''2030-01-01''"
    by (simp add: sample_img1_def rowToMetadata_def sample_defs or_null_def)
  have p1: "upd_expiryTime same_tags = None \<and>
          (\<forall>ts. upd_tags same_tags = Some ts \<longrightarrow> set ts = set (tags sample_img1))"
    using tg by (simp add: same_tags_def)
  have p2: "upd_expiryTime same_values = Some ''2030-01-01'' \<and> expiryTime sample_img1 = Some ''2030-01-01'' \<and>
              (\<forall>ts. upd_tags same_values = Some ts \<longrightarrow> set ts = set (tags sample_img1))"
    using tg ex by (simp add: same_values_def)
  have a: "updateImage sample_db ''img1'' same_tags = (Inr (Some sample_img1), sample_db)"
    using updateImage_unchanged_values[OF schema_ok_sample_db getImage_sample_img1, of same_tags,
      THEN conjunct1, rule_format, OF p1, THEN conjunct2] .
  have b: "updateImage sample_db ''img1'' same_values = (Inr (Some sample_img1), sample_db)"
    using updateImage_unchanged_values[OF schema_ok_sample_db getImage_sample_img1, of same_values,
      THEN conjunct2, THEN conjunct2, rule_format, OF p2, THEN conjunct2] .
  from schema_ok_sample_db getImage_sample_img1 a ex b show ?thesis by (intro conjI)
qed

text \<open>
  The claim as stated fails: \<open>img1\<close> has tags cat, orange and expiry 2030-01-01;
  an update with the same tag set and the same expiry time still builds one statement,
  which the length test sends to \<open>batch\<close>.
\<close>

theorem updateImage_unchanged_expiry_counterexample:
  "getImage sample_db ''img1'' = Some sample_img1 \<and>
   upd_tags same_values = Some [''orange'', ''cat''] \<and>
   set [''orange'', ''cat''] = set (tags sample_img1) \<and>
   upd_expiryTime same_values = expiryTime sample_img1 \<and>
   updateImage_statements sample_img1 ''img1'' same_values = [UpdateExpiry (Some ''2030-01-01'') ''img1''] \<and>
   0 < length (updateImage_statements sample_img1 ''img1'' same_values)"
proof -
  have ut: "upd_tags same_values = Some [''orange'', ''cat'']" by (simp add: same_values_def)
  have tg: "set [''orange'', ''cat''] = set (tags sample_img1)"
    by (simp add: sample_img1_def rowToMetadata_def insert_commute)
  have ex: "upd_expiryTime same_values = expiryTime sample_img1"
    by (simp add: sample_img1_def rowToMetadata_def sample_defs or_null_def same_values_def)
  have st: "updateImage_statements sample_img1 ''img1'' same_values = [UpdateExpiry (Some ''2030-01-01'') ''img1'']"
    by (simp add: updateImage_statements_def same_values_def sample_img1_def rowToMetadata_def or_null_def Let_def)
  have ln: "0 < length (updateImage_statements sample_img1 ''img1'' same_values)"
    by (simp only: st) simp
  from getImage_sample_img1 ut tg ex st ln show ?thesis by (intro conjI)
qed

section \<open>Batch tag updates\<close>

text \<open>The per-image blocks of \<open>batchUpdateTags\<close>: removals, then additions.\<close>

lemma exec_all_blocks:
  "schema_ok db \<Longrightarrow> set ids \<subseteq> image_ids db \<or> as = [] \<Longrightarrow> set as \<subseteq> tag_names db \<Longrightarrow>
   \<exists>db'. exec_all db (concat (map (\<lambda>i. map (DeleteImageTag i) rs @ map (InsertOrIgnoreImageTag i) as) ids)) = Inr db' \<and>
         schema_ok db' \<and> images db' = images db \<and> tags_tbl db' = tags_tbl db \<and>
         (\<forall>j. linked db' j = (if j \<in> set ids then (linked db j - set rs) \<union> set as else linked db j))"
proof (induction ids arbitrary: db)
  case Nil
  then show ?case by simp
next
  case (Cons i ids)
  from exec_all_delete_links[OF Cons.prems(1), of i rs] obtain db1 where
    e1: "exec_all db (map (DeleteImageTag i) rs) = Inr db1" and ok1: "schema_ok db1"
    and i1: "images db1 = images db" and t1: "tags_tbl db1 = tags_tbl db"
    and l1: "\<forall>j. linked db1 j = (if j = i then linked db i - set rs else linked db j)"
    by blast
  have tn1: "tag_names db1 = tag_names db" using t1 by (rule tag_names_cong)
  have "\<exists>db2. exec_all db1 (map (InsertOrIgnoreImageTag i) as) = Inr db2 \<and> schema_ok db2 \<and>
          images db2 = images db1 \<and> tags_tbl db2 = tags_tbl db1 \<and>
          (\<forall>j. linked db2 j = (if j = i then linked db1 i \<union> (set as \<inter> tag_names db1) else linked db1 j))"
  proof (cases "as = []")
    case True
    with ok1 show ?thesis by simp
  next
    case False
    with Cons.prems(2) have "i \<in> image_ids db" by simp
    then have "i \<in> image_ids db1" using i1 by (simp add: image_ids_def)
    with ok1 show ?thesis by (rule exec_all_insert_links)
  qed
  then obtain db2 where
    e2: "exec_all db1 (map (InsertOrIgnoreImageTag i) as) = Inr db2" and ok2: "schema_ok db2"
    and i2: "images db2 = images db1" and t2: "tags_tbl db2 = tags_tbl db1"
    and l2: "\<forall>j. linked db2 j = (if j = i then linked db1 i \<union> (set as \<inter> tag_names db1) else linked db1 j)"
    by blast
  have tn2: "tag_names db2 = tag_names db" using t2 t1 by (simp add: tag_names_def)
  have ids2: "set ids \<subseteq> image_ids db2 \<or> as = []" using Cons.prems(2) i1 i2 by (auto simp: image_ids_def)
  have as2: "set as \<subseteq> tag_names db2" using Cons.prems(3) tn2 by simp
  from Cons.IH[OF ok2 ids2 as2] obtain db' where
    e': "exec_all db2 (concat (map (\<lambda>i. map (DeleteImageTag i) rs @ map (InsertOrIgnoreImageTag i) as) ids)) = Inr db'"
    and ok': "schema_ok db'" and i': "images db' = images db2" and t': "tags_tbl db' = tags_tbl db2"
    and l': "\<forall>j. linked db' j = (if j \<in> set ids then (linked db2 j - set rs) \<union> set as else linked db2 j)"
    by blast
  have e: "exec_all db (concat (map (\<lambda>i. map (DeleteImageTag i) rs @ map (InsertOrIgnoreImageTag i) as) (i # ids))) = Inr db'"
    by (simp add: exec_all_append e1 e2 e')
  have l: "\<forall>j. linked db' j = (if j \<in> set (i # ids) then (linked db j - set rs) \<union> set as else linked db j)"
    using l1 l2 l' tn1 Cons.prems(3) by auto
  from e ok' i1 i2 i' t1 t2 t' l show ?case by auto
qed

lemma batchUpdateTags_statements_nonempty:
  assumes "addTags \<noteq> [] \<or> (imageIds \<noteq> [] \<and> removeTags \<noteq> [])"
  shows "batchUpdateTags_statements imageIds addTags removeTags \<noteq> []"
proof (cases "addTags = []")
  case False
  then show ?thesis by (simp add: batchUpdateTags_statements_def)
next
  case True
  with assms obtain i ids r rs where "imageIds = i # ids" "removeTags = r # rs"
    by (auto simp: neq_Nil_conv)
  then show ?thesis by (simp add: batchUpdateTags_statements_def)
qed

text \<open>
  Claim C5, as the code has it. On a database that satisfies the schema, when the call
  builds at least one statement (\<open>addTags\<close> is not empty, or \<open>imageIds\<close> and
  \<open>removeTags\<close> are both not empty) and the image ids all exist or \<open>addTags\<close> is
  empty: the batch succeeds and returns the number of ids in the list; every tag of
  \<open>addTags\<close> exists afterwards; each listed image ends with its old tags minus
  \<open>removeTags\<close> plus \<open>addTags\<close>, so a tag in both lists ends up associated; other
  images are unchanged.
\<close>

theorem batchUpdateTags_add_wins:
  assumes ok: "schema_ok db"
    and ne: "addTags \<noteq> [] \<or> (imageIds \<noteq> [] \<and> removeTags \<noteq> [])"
    and ids: "set imageIds \<subseteq> image_ids db \<or> addTags = []"
  shows "\<exists>db'. batchUpdateTags db imageIds addTags removeTags = (Inr (length imageIds), db') \<and>
           schema_ok db' \<and> images db' = images db \<and>
           tag_names db' = tag_names db \<union> set addTags \<and>
           (\<forall>j. linked db' j =
                 (if j \<in> set imageIds then (linked db j - set removeTags) \<union> set addTags
                  else linked db j))"
proof -
  from exec_all_create_tags[OF ok, of addTags] obtain db1 where
    e1: "exec_all db (map InsertOrIgnoreTag addTags) = Inr db1" and ok1: "schema_ok db1"
    and i1: "images db1 = images db" and n1: "tag_names db1 = tag_names db \<union> set addTags"
    and l1: "\<forall>j. linked db1 j = linked db j"
    by blast
  have ids1: "set imageIds \<subseteq> image_ids db1 \<or> addTags = []" using ids i1 by (auto simp: image_ids_def)
  have as1: "set addTags \<subseteq> tag_names db1" using n1 by simp
  from exec_all_blocks[OF ok1 ids1 as1, of removeTags] obtain db' where
    e': "exec_all db1 (concat (map (\<lambda>i. map (DeleteImageTag i) removeTags @ map (InsertOrIgnoreImageTag i) addTags) imageIds)) = Inr db'"
    and ok': "schema_ok db'" and i': "images db' = images db1" and t': "tags_tbl db' = tags_tbl db1"
    and l': "\<forall>j. linked db' j = (if j \<in> set imageIds then (linked db1 j - set removeTags) \<union> set addTags else linked db1 j)"
    by blast
  have e: "exec_all db (batchUpdateTags_statements imageIds addTags removeTags) = Inr db'"
    by (simp add: batchUpdateTags_statements_def exec_all_append e1 e')
  have r: "batchUpdateTags db imageIds addTags removeTags = (Inr (length imageIds), db')"
    using batchUpdateTags_statements_nonempty[OF ne]
    by (simp add: batchUpdateTags_def batch_def e)
  have n: "tag_names db' = tag_names db \<union> set addTags" using t' n1 by (simp add: tag_names_def)
  from r ok' i1 i' n l1 l' show ?thesis by auto
qed

theorem batchUpdateTags_add_wins_witness:
  "schema_ok sample_db \<and>
   set [''img1'', ''img3''] \<subseteq> image_ids sample_db \<and>
   fst (batchUpdateTags sample_db [''img1'', ''img3''] [''x''] [''x'', ''cat'']) = Inr 2 \<and>
   linked (snd (batchUpdateTags sample_db [''img1'', ''img3''] [''x''] [''x'', ''cat''])) ''img1'' = {''orange'', ''x''} \<and>
   linked (snd (batchUpdateTags sample_db [''img1'', ''img3''] [''x''] [''x'', ''cat''])) ''img3'' = {''x''} \<and>
   linked (snd (batchUpdateTags sample_db [''img1'', ''img3''] [''x''] [''x'', ''cat''])) ''img2'' = {''orange''}"
proof -
  have ids: "set [''img1'', ''img3''] \<subseteq> image_ids sample_db"
    by (simp add: image_ids_def sample_defs)
  then have ids': "set [''img1'', ''img3''] \<subseteq> image_ids sample_db \<or> [''x''] = []" ..
  have ne: "[''x''] \<noteq> [] \<or> ([''img1'', ''img3''] \<noteq> [] \<and> [''x'', ''cat''] \<noteq> [])" by simp
  have l1: "linked sample_db ''img1'' = {''cat'', ''orange''}"
    and l2: "linked sample_db ''img2'' = {''orange''}"
    and l3: "linked sample_db ''img3'' = {}"
    by (simp_all add: linked_def getImage_tags_def sample_defs)
  from batchUpdateTags_add_wins[OF schema_ok_sample_db ne ids']
  obtain db' where
    r: "batchUpdateTags sample_db [''img1'', ''img3''] [''x''] [''x'', ''cat''] = (Inr (length [''img1'', ''img3'']), db')"
    and l: "\<forall>j. linked db' j =
                 (if j \<in> set [''img1'', ''img3''] then (linked sample_db j - set [''x'', ''cat'']) \<union> set [''x'']
                  else linked sample_db j)"
    by (elim exE conjE) (rule that)
  from r have f: "fst (batchUpdateTags sample_db [''img1'', ''img3''] [''x''] [''x'', ''cat'']) = Inr 2"
    and sn: "snd (batchUpdateTags sample_db [''img1'', ''img3''] [''x''] [''x'', ''cat'']) = db'" by simp_all
  have a: "linked db' ''img1'' = {''orange'', ''x''}"
    using l[rule_format, of "''img1''"] by (simp add: l1 insert_commute)
  have b: "linked db' ''img3'' = {''x''}"
    using l[rule_format, of "''img3''"] by (simp add: l3)
  have c: "linked db' ''img2'' = {''orange''}"
    using l[rule_format, of "''img2''"] by (simp add: l2)
  from schema_ok_sample_db ids f a b c show ?thesis unfolding sn by (intro conjI)
qed

text \<open>
  The claim as stated fails for an id without an image row: the association insert
  violates the foreign key, the batch fails and no count is returned.
\<close>

theorem batchUpdateTags_missing_image_counterexample:
  "batchUpdateTags sample_db [''ghost''] [''x''] [] = (Inl Constraint_ForeignKey, sample_db)"
  by code_simp

section \<open>Renaming a tag\<close>

lemma filter_name_le1:
  "distinct (map snd xs) \<Longrightarrow> length (filter (\<lambda>(tid, nm). nm = old) xs) \<le> Suc 0"
proof (induction xs)
  case Nil
  then show ?case by simp
next
  case (Cons x xs)
  obtain t n where x: "x = (t, n)" by (cases x)
  show ?case
  proof (cases "n = old")
    case True
    with Cons.prems x have "old \<notin> snd ` set xs" by simp
    then have "filter (\<lambda>(tid, nm). nm = old) xs = []"
      by (force simp: filter_empty_conv)
    with x True show ?thesis by simp
  next
    case False
    with Cons x show ?thesis by simp
  qed
qed

lemma exec_UpdateTagName:
  assumes ok: "schema_ok db" and new: "new \<notin> tag_names db"
  shows "\<exists>db' c. exec db (UpdateTagName new old) = Inr (db', c) \<and>
    schema_ok db' \<and> images db' = images db \<and> image_tags db' = image_tags db \<and>
    tag_names db' = (\<lambda>n. if n = old then new else n) ` tag_names db \<and>
    (\<forall>j. linked db' j = (\<lambda>n. if n = old then new else n) ` linked db j)"
proof -
  define f where "f = (\<lambda>n. if n = old then new else n)"
  define g where "g = (\<lambda>(tid :: nat, nm). if nm = old then (tid, new) else (tid, nm))"
  define hit where "hit = filter (\<lambda>(tid, nm). nm = old) (tags_tbl db)"
  define db' where "db' = db\<lparr>tags_tbl := map g (tags_tbl db)\<rparr>"
  have g_f: "g = (\<lambda>p. (fst p, f (snd p)))" by (auto simp: g_def f_def)
  have len: "length hit \<le> Suc 0" unfolding hit_def
    using schema_okD(3)[OF ok] by (rule filter_name_le1)
  have e: "exec db (UpdateTagName new old) = Inr (db', length hit)"
  proof (cases "hit = []")
    case True
    then have "\<forall>p \<in> set (tags_tbl db). g p = p"
      by (auto simp: hit_def filter_empty_conv g_def)
    then have "map g (tags_tbl db) = tags_tbl db" by (simp add: map_idI)
    then have "db' = db" by (simp add: db'_def)
    with True show ?thesis by (simp add: hit_def[symmetric])
  next
    case False
    with len new show ?thesis by (simp add: hit_def[symmetric] db'_def g_def Let_def)
  qed
  have fst_same: "map fst (tags_tbl db') = map fst (tags_tbl db)"
    by (simp add: db'_def g_f comp_def)
  have snd_f: "map snd (tags_tbl db') = map f (map snd (tags_tbl db))"
    by (simp add: db'_def g_f comp_def)
  have inj: "inj_on f (tag_names db)"
    using new unfolding inj_on_def f_def by (auto split: if_splits)
  have set': "set (tags_tbl db') = (\<lambda>p. (fst p, f (snd p))) ` set (tags_tbl db)"
    by (simp add: db'_def g_f)
  have ok': "schema_ok db'"
  proof (rule schema_okI)
    show "distinct (map row_id (images db'))" using schema_okD(1)[OF ok] by (simp add: db'_def)
    show "distinct (map fst (tags_tbl db'))" using schema_okD(2)[OF ok] by (simp only: fst_same)
    show "distinct (map snd (tags_tbl db'))"
    proof -
      have i: "inj_on f (set (map snd (tags_tbl db)))" using inj by (simp only: tag_names_def)
      show ?thesis unfolding snd_f
        using distinct_map[of f "map snd (tags_tbl db)"] schema_okD(3)[OF ok] i by blast
    qed
    show "distinct (image_tags db')" using schema_okD(4)[OF ok] by (simp add: db'_def)
    show "j \<in> image_ids db' \<and> u \<in> fst ` set (tags_tbl db')" if "(j, u) \<in> set (image_tags db')" for j u
    proof -
      from that have "(j, u) \<in> set (image_tags db)" by (simp add: db'_def)
      then have "j \<in> image_ids db \<and> u \<in> fst ` set (tags_tbl db)" by (rule schema_ok_fk'[OF ok])
      moreover have "fst ` set (tags_tbl db') = fst ` set (tags_tbl db)"
        using fst_same by (metis set_map)
      ultimately show ?thesis by (simp add: db'_def image_ids_def)
    qed
  qed
  have names: "tag_names db' = f ` tag_names db"
    unfolding tag_names_def snd_f by (simp only: set_map)
  have l: "linked db' j = f ` linked db j" for j
  proof (rule set_eqI)
    fix nm
    have it: "image_tags db' = image_tags db" by (simp add: db'_def)
    show "nm \<in> linked db' j \<longleftrightarrow> nm \<in> f ` linked db j"
    proof
      assume "nm \<in> linked db' j"
      then obtain tid where "(tid, nm) \<in> set (tags_tbl db')" "(j, tid) \<in> set (image_tags db)"
        unfolding linked_iff it by blast
      then obtain n0 where "(tid, n0) \<in> set (tags_tbl db)" "nm = f n0" "(j, tid) \<in> set (image_tags db)"
        unfolding set' by auto
      then have "n0 \<in> linked db j" "nm = f n0" unfolding linked_iff by blast+
      then show "nm \<in> f ` linked db j" by simp
    next
      assume "nm \<in> f ` linked db j"
      then obtain n0 where n0: "n0 \<in> linked db j" "nm = f n0" by blast
      then obtain tid where t: "(tid, n0) \<in> set (tags_tbl db)" "(j, tid) \<in> set (image_tags db)"
        unfolding linked_iff by blast
      from t(1) have "(tid, f n0) \<in> set (tags_tbl db')" unfolding set' by force
      with t(2) n0(2) show "nm \<in> linked db' j" unfolding linked_iff it by blast
    qed
  qed
  have "images db' = images db" "image_tags db' = image_tags db" by (simp_all add: db'_def)
  with e ok' names l show ?thesis unfolding f_def by blast
qed

lemma inner_join_single:
  "distinct (map fst ts) \<Longrightarrow>
   concat (map (\<lambda>(tid', nm). if tid' = tid then if nm = old then [x] else [] else []) ts) =
     (if (tid, old) \<in> set ts then [x] else [])"
proof (induction ts)
  case Nil
  then show ?case by simp
next
  case (Cons p ts)
  obtain a b where p: "p = (a, b)" by (cases p)
  show ?case
  proof (cases "a = tid")
    case True
    with Cons.prems p have "tid \<notin> fst ` set ts" by simp
    then have no: "(tid, old) \<notin> set ts" by force
    with Cons p True show ?thesis by simp
  next
    case False
    with Cons p show ?thesis by simp
  qed
qed

lemma concat_if_filter:
  "concat (map (\<lambda>(a, b). if P b then [a] else []) xs) = map fst (filter (\<lambda>(a, b). P b) xs)"
  by (induction xs) auto

lemma count_tagged_card:
  assumes ok: "schema_ok db"
  shows "count_tagged db old = card {j. old \<in> linked db j}"
proof -
  define S where "S = {p \<in> set (image_tags db). (snd p, old) \<in> set (tags_tbl db)}"
  have inner: "\<And>img tid.
    concat (map (\<lambda>(tid', nm). if tid' = tid then if nm = old then [img] else [] else []) (tags_tbl db)) =
      (if (tid, old) \<in> set (tags_tbl db) then [img] else [])"
    using schema_okD(2)[OF ok] by (rule inner_join_single)
  have "count_tagged db old =
          length (concat (map (\<lambda>(img, tid). if (tid, old) \<in> set (tags_tbl db) then [img] else [])
                              (image_tags db)))"
    by (simp add: count_tagged_def inner)
  also have "\<dots> = length (filter (\<lambda>(img, tid). (tid, old) \<in> set (tags_tbl db)) (image_tags db))"
    by (simp add: concat_if_filter)
  also have "\<dots> = card (set (filter (\<lambda>(img, tid). (tid, old) \<in> set (tags_tbl db)) (image_tags db)))"
    by (rule distinct_card[OF distinct_filter[OF schema_okD(4)[OF ok]], symmetric])
  also have "set (filter (\<lambda>(img, tid). (tid, old) \<in> set (tags_tbl db)) (image_tags db)) = S"
    by (auto simp: S_def)
  finally have c: "count_tagged db old = card S" .
  have img: "{j. old \<in> linked db j} = fst ` S"
    by (force simp: linked_iff S_def image_iff)
  have "inj_on fst S"
  proof (rule inj_onI)
    fix p q assume p: "p \<in> S" and q: "q \<in> S" and e: "fst p = fst q"
    from p q have "snd p = snd q" unfolding S_def using schema_ok_name_id[OF ok] by blast
    with e show "p = q" by (simp add: prod_eq_iff)
  qed
  then have "card (fst ` S) = card S" by (rule card_image)
  with c img show ?thesis by simp
qed

lemmas scenario_defs = scenario_metadata_def scenario_db_def duplicate_metadata_def metadataToRow_def
  or_null_def

lemma schema_ok_empty_db: "schema_ok empty_db"
  by (simp add: schema_ok_def sample_defs)

lemma schema_ok_scenario_db: "schema_ok scenario_db"
  by (simp add: schema_ok_def scenario_defs sample_defs image_ids_def)

lemma linked_scenario_db: "linked scenario_db ''img1'' = {''cat'', ''orange''}"
  by (simp add: linked_def getImage_tags_def scenario_defs)

text \<open>
  Claim C6, as the code has it. On a database that satisfies the schema and for a new
  name that no tag has yet, \<open>renameTag\<close> succeeds and returns the number of images
  associated with the old name; the association rows are untouched, every image's tag
  names are the old ones with the old name replaced by the new one, so each image that
  had the old name has the new name afterwards and no longer the old one. The witness
  is the scenario of the specification: it returns 1 and \<open>img1\<close> then has feline and
  orange, not cat.
\<close>

theorem renameTag_preserves_associations:
  assumes ok: "schema_ok db" and new: "newName \<notin> tag_names db"
  shows "\<exists>db'. renameTag db oldName newName = (Inr (card {j. oldName \<in> linked db j}), db') \<and>
           schema_ok db' \<and> images db' = images db \<and> image_tags db' = image_tags db \<and>
           (\<forall>j. linked db' j = (\<lambda>n. if n = oldName then newName else n) ` linked db j) \<and>
           (\<forall>j. oldName \<in> linked db j \<longrightarrow> newName \<in> linked db' j \<and> oldName \<notin> linked db' j)"
proof -
  from exec_UpdateTagName[OF ok new, of oldName] obtain db' c where
    e: "exec db (UpdateTagName newName oldName) = Inr (db', c)" and ok': "schema_ok db'"
    and i': "images db' = images db" and it': "image_tags db' = image_tags db"
    and l': "\<forall>j. linked db' j = (\<lambda>n. if n = oldName then newName else n) ` linked db j"
    by blast
  have r: "renameTag db oldName newName = (Inr (card {j. oldName \<in> linked db j}), db')"
    using e by (simp add: renameTag_def count_tagged_card[OF ok])
  have p: "\<forall>j. oldName \<in> linked db j \<longrightarrow> newName \<in> linked db' j \<and> oldName \<notin> linked db' j"
  proof (intro allI impI)
    fix j assume o: "oldName \<in> linked db j"
    then have "oldName \<in> tag_names db" by (force simp: linked_iff tag_names_def)
    with new have ne: "newName \<noteq> oldName" by auto
    from o have a: "newName \<in> linked db' j" using l' by force
    have b: "oldName \<notin> linked db' j" using l' ne by (auto split: if_splits)
    from a b show "newName \<in> linked db' j \<and> oldName \<notin> linked db' j" ..
  qed
  from r ok' i' it' l' p show ?thesis by blast
qed

theorem renameTag_preserves_associations_witness:
  "schema_ok scenario_db \<and>
   ''feline'' \<notin> tag_names scenario_db \<and>
   saveImage empty_db scenario_metadata = (Inr (), scenario_db) \<and>
   fst (renameTag scenario_db ''cat'' ''feline'') = Inr 1 \<and>
   linked (snd (renameTag scenario_db ''cat'' ''feline'')) ''img1'' = {''feline'', ''orange''} \<and>
   ''cat'' \<notin> linked (snd (renameTag scenario_db ''cat'' ''feline'')) ''img1''"
proof -
  have n: "''feline'' \<notin> tag_names scenario_db"
    by (simp add: tag_names_def scenario_defs)
  have a: "saveImage empty_db scenario_metadata = (Inr (), scenario_db)"
    by code_simp
  have c: "fst (renameTag scenario_db ''cat'' ''feline'') = Inr 1"
    by code_simp
  from renameTag_preserves_associations[OF schema_ok_scenario_db n, of "''cat''"]
  obtain db' where
    r: "renameTag scenario_db ''cat'' ''feline'' = (Inr (card {j. ''cat'' \<in> linked scenario_db j}), db')"
    and l: "\<forall>j. linked db' j = (\<lambda>n. if n = ''cat'' then ''feline'' else n) ` linked scenario_db j"
    by (elim exE conjE) (rule that)
  from r have sn: "snd (renameTag scenario_db ''cat'' ''feline'') = db'" by simp
  have li: "linked db' ''img1'' = {''feline'', ''orange''}"
    using l[rule_format, of "''img1''"] by (simp add: linked_scenario_db insert_commute)
  have nc: "''cat'' \<notin> linked db' ''img1''" by (simp add: li)
  from schema_ok_scenario_db n a c li nc show ?thesis unfolding sn by (intro conjI)
qed

text \<open>
  The claim as stated fails when another tag already has the new name: the UPDATE
  violates UNIQUE on the name, the failure propagates, no count is returned and the
  image keeps the old name.
\<close>

theorem renameTag_existing_name_counterexample:
  "''cat'' \<in> linked sample_db ''img1'' \<and>
   ''feline'' \<in> tag_names sample_db \<and>
   renameTag sample_db ''cat'' ''feline'' = (Inl (Constraint_Unique ''tags''), sample_db)"
proof -
  have a: "''cat'' \<in> linked sample_db ''img1''"
    by (simp add: linked_def getImage_tags_def sample_defs)
  have b: "''feline'' \<in> tag_names sample_db"
    by (simp add: tag_names_def sample_defs)
  have c: "renameTag sample_db ''cat'' ''feline'' = (Inl (Constraint_Unique ''tags''), sample_db)"
    by code_simp
  from a b c show ?thesis by (intro conjI)
qed

section \<open>Saving an image\<close>

lemma join_name_none:
  "n \<notin> snd ` set ts \<Longrightarrow>
   concat (map (\<lambda>(tid, nm). if nm = n then [(i, tid)] else []) ts) = []"
  by (induction ts) auto

lemma join_name_single:
  "distinct (map snd ts) \<Longrightarrow> (t, n) \<in> set ts \<Longrightarrow>
   concat (map (\<lambda>(tid, nm). if nm = n then [(i, tid)] else []) ts) = [(i, t)]"
proof (induction ts)
  case Nil
  then show ?case by simp
next
  case (Cons p ts)
  obtain a b where p: "p = (a, b)" by (cases p)
  show ?case
  proof (cases "b = n")
    case True
    with Cons.prems(1) p have no: "n \<notin> snd ` set ts" by simp
    then have "(t, n) \<notin> set ts" by force
    with Cons.prems(2) p have "a = t" by simp
    with p True join_name_none[OF no, of i] show ?thesis by simp
  next
    case False
    with Cons p show ?thesis by auto
  qed
qed

lemma select_tag_rows_single:
  assumes "schema_ok db" and "(tid, n) \<in> set (tags_tbl db)"
  shows "select_tag_rows db i n = [(i, tid)]"
  unfolding select_tag_rows_def
  using schema_okD(3)[OF assms(1)] assms(2) by (rule join_name_single)

lemma exec_InsertImageTag_dup:
  assumes ok: "schema_ok db" and l: "n \<in> linked db i"
  shows "exec db (InsertImageTag i n) = Inl (Constraint_PrimaryKey ''image_tags'')"
proof -
  from l obtain tid where t: "(tid, n) \<in> set (tags_tbl db)" and m: "(i, tid) \<in> set (image_tags db)"
    unfolding linked_iff by blast
  have "select_tag_rows db i n = [(i, tid)]" using ok t by (rule select_tag_rows_single)
  with m show ?thesis by (simp add: Let_def)
qed

lemma exec_InsertImageTag_new:
  assumes ok: "schema_ok db" and i: "i \<in> image_ids db" and n: "n \<in> tag_names db"
    and l: "n \<notin> linked db i"
  shows "exec db (InsertImageTag i n) = exec db (InsertOrIgnoreImageTag i n)"
proof -
  from n obtain tid where t: "(tid, n) \<in> set (tags_tbl db)" by (auto simp: tag_names_def)
  with l have m: "(i, tid) \<notin> set (image_tags db)" unfolding linked_iff by blast
  have "select_tag_rows db i n = [(i, tid)]" using ok t by (rule select_tag_rows_single)
  with m i show ?thesis by (simp add: Let_def)
qed

lemma exec_all_save_links:
  "schema_ok db \<Longrightarrow> i \<in> image_ids db \<Longrightarrow>
   (if distinct ts \<and> set ts \<inter> linked db i = {}
    then \<exists>db'. exec_all db (concat (map (\<lambda>t. [InsertOrIgnoreTag t, InsertImageTag i t]) ts)) = Inr db' \<and>
           schema_ok db' \<and> images db' = images db \<and> tag_names db' = tag_names db \<union> set ts \<and>
           (\<forall>j. linked db' j = (if j = i then linked db i \<union> set ts else linked db j))
    else exec_all db (concat (map (\<lambda>t. [InsertOrIgnoreTag t, InsertImageTag i t]) ts)) =
           Inl (Constraint_PrimaryKey ''image_tags''))"
proof (induction ts arbitrary: db)
  case Nil
  then show ?case by simp
next
  case (Cons a as)
  let ?S = "\<lambda>ts. concat (map (\<lambda>t. [InsertOrIgnoreTag t, InsertImageTag i t]) ts)"
  from exec_InsertOrIgnoreTag[OF Cons.prems(1), where n=a] obtain db1 c where
    e1: "exec db (InsertOrIgnoreTag a) = Inr (db1, c)" and ok1: "schema_ok db1"
    and i1: "images db1 = images db" and n1: "tag_names db1 = insert a (tag_names db)"
    and l1: "\<forall>j. linked db1 j = linked db j"
    by blast
  have m1: "i \<in> image_ids db1" using Cons.prems(2) i1 by (simp add: image_ids_def)
  have a1: "a \<in> tag_names db1" using n1 by simp
  show ?case
  proof (cases "a \<in> linked db i")
    case True
    then have "a \<in> linked db1 i" using l1 by simp
    then have "exec db1 (InsertImageTag i a) = Inl (Constraint_PrimaryKey ''image_tags'')"
      by (rule exec_InsertImageTag_dup[OF ok1])
    with e1 have "exec_all db (?S (a # as)) = Inl (Constraint_PrimaryKey ''image_tags'')" by simp
    with True show ?thesis by simp
  next
    case False
    then have nl: "a \<notin> linked db1 i" using l1 by simp
    from exec_InsertOrIgnoreImageTag[OF ok1 m1, where n=a] obtain db2 c2 where
      e2: "exec db1 (InsertOrIgnoreImageTag i a) = Inr (db2, c2)" and ok2: "schema_ok db2"
      and i2: "images db2 = images db1" and t2: "tags_tbl db2 = tags_tbl db1"
      and l2: "\<forall>j. linked db2 j = (if j = i then linked db1 i \<union> ({a} \<inter> tag_names db1) else linked db1 j)"
      by blast
    have e2': "exec db1 (InsertImageTag i a) = Inr (db2, c2)"
      using exec_InsertImageTag_new[OF ok1 m1 a1 nl] e2 by simp
    have m2: "i \<in> image_ids db2" using m1 i2 by (simp add: image_ids_def)
    have tn2: "tag_names db2 = insert a (tag_names db)" using t2 n1 by (simp add: tag_names_def)
    have li: "linked db2 i = insert a (linked db i)" using l2 l1 a1 by simp
    have lo: "\<forall>j. j \<noteq> i \<longrightarrow> linked db2 j = linked db j" using l2 l1 by simp
    have step: "exec_all db (?S (a # as)) = exec_all db2 (?S as)" using e1 e2' by simp
    have cond: "(distinct (a # as) \<and> set (a # as) \<inter> linked db i = {}) \<longleftrightarrow>
                (distinct as \<and> set as \<inter> linked db2 i = {})"
      using False li by auto
    show ?thesis
    proof (cases "distinct as \<and> set as \<inter> linked db2 i = {}")
      case True
      with Cons.IH[OF ok2 m2] obtain db' where
        e': "exec_all db2 (?S as) = Inr db'" and ok': "schema_ok db'"
        and i': "images db' = images db2" and n': "tag_names db' = tag_names db2 \<union> set as"
        and l': "\<forall>j. linked db' j = (if j = i then linked db2 i \<union> set as else linked db2 j)"
        by auto
      have "tag_names db' = tag_names db \<union> set (a # as)" using n' tn2 by auto
      moreover have "\<forall>j. linked db' j = (if j = i then linked db i \<union> set (a # as) else linked db j)"
        using l' li lo by auto
      moreover have "images db' = images db" using i' i2 i1 by simp
      ultimately show ?thesis using True cond step e' ok' by auto
    next
      case F: False
      with Cons.IH[OF ok2 m2] have "exec_all db2 (?S as) = Inl (Constraint_PrimaryKey ''image_tags'')"
        by auto
      with F cond step show ?thesis by auto
    qed
  qed
qed

lemma exec_InsertImage_new:
  assumes ok: "schema_ok db" and fresh: "row_id r \<notin> image_ids db"
  shows "schema_ok (db\<lparr>images := images db @ [r]\<rparr>) \<and>
         (\<forall>j. linked (db\<lparr>images := images db @ [r]\<rparr>) j = linked db j) \<and>
         linked db (row_id r) = {}"
proof (intro conjI allI)
  let ?db = "db\<lparr>images := images db @ [r]\<rparr>"
  show "schema_ok ?db"
  proof (rule schema_okI)
    show "distinct (map row_id (images ?db))" using schema_okD(1)[OF ok] fresh
      by (simp add: image_ids_def)
    show "distinct (map fst (tags_tbl ?db))" using schema_okD(2)[OF ok] by simp
    show "distinct (map snd (tags_tbl ?db))" using schema_okD(3)[OF ok] by simp
    show "distinct (image_tags ?db)" using schema_okD(4)[OF ok] by simp
    show "j \<in> image_ids ?db \<and> u \<in> fst ` set (tags_tbl ?db)" if "(j, u) \<in> set (image_tags ?db)" for j u
      using schema_ok_fk'[OF ok, of j u] that by (simp add: image_ids_def)
  qed
  show "linked ?db j = linked db j" for j by (simp add: linked_def getImage_tags_def)
  show "linked db (row_id r) = {}"
    using schema_ok_fk'[OF ok] fresh by (auto simp: linked_iff)
qed


lemma saveImage_result:
  assumes ok: "schema_ok db"
  shows "if \<not> valid_orientation (orientation metadata)
         then saveImage db metadata = (Inl (Constraint_Check ''images''), db)
         else if m_id metadata \<in> image_ids db
         then saveImage db metadata = (Inl (Constraint_PrimaryKey ''images''), db)
         else if \<not> distinct (tags metadata)
         then saveImage db metadata = (Inl (Constraint_PrimaryKey ''image_tags''), db)
         else \<exists>db'. saveImage db metadata = (Inr (), db') \<and> schema_ok db' \<and>
                images db' = images db @ [metadataToRow metadata] \<and>
                tag_names db' = tag_names db \<union> set (tags metadata) \<and>
                (\<forall>j. linked db' j = (if j = m_id metadata then set (tags metadata) else linked db j))"
proof -
  let ?r = "metadataToRow metadata"
  let ?i = "m_id metadata"
  let ?S = "concat (map (\<lambda>t. [InsertOrIgnoreTag t, InsertImageTag ?i t]) (tags metadata))"
  have rid: "row_id ?r = ?i" and ror: "row_orientation ?r = orientation metadata"
    by (simp_all add: metadataToRow_def)
  have sv: "saveImage db metadata =
              (case exec_all db (InsertImage ?r # ?S) of Inl e \<Rightarrow> (Inl e, db) | Inr db' \<Rightarrow> (Inr (), db'))"
    by (simp add: saveImage_def saveImage_statements_def batch_def)
  show ?thesis
  proof (cases "valid_orientation (orientation metadata)")
    case False
    then have "exec db (InsertImage ?r) = Inl (Constraint_Check ''images'')"
      by (simp add: valid_orientation_def ror)
    with False sv show ?thesis by simp
  next
    case v: True
    show ?thesis
    proof (cases "?i \<in> image_ids db")
      case True
      with v have "exec db (InsertImage ?r) = Inl (Constraint_PrimaryKey ''images'')"
        by (simp add: valid_orientation_def ror rid)
      with True v sv show ?thesis by simp
    next
      case fresh: False
      define db1 where "db1 = db\<lparr>images := images db @ [?r]\<rparr>"
      from fresh have fr: "row_id ?r \<notin> image_ids db" by (simp add: rid)
      from exec_InsertImage_new[OF ok fr] have ok1: "schema_ok db1"
        and l1: "\<forall>j. linked db1 j = linked db j" and le: "linked db ?i = {}"
        by (simp_all add: db1_def rid)
      have e1: "exec db (InsertImage ?r) = Inr (db1, 1)"
        using v fresh by (simp add: valid_orientation_def ror rid db1_def)
      have m1: "?i \<in> image_ids db1" by (simp add: db1_def image_ids_def rid)
      have step: "exec_all db (InsertImage ?r # ?S) = exec_all db1 ?S" using e1 by simp
      have l1i: "linked db1 ?i = {}" using l1 le by simp
      show ?thesis
      proof (cases "distinct (tags metadata)")
        case False
        with exec_all_save_links[OF ok1 m1, of "tags metadata"]
        have "exec_all db1 ?S = Inl (Constraint_PrimaryKey ''image_tags'')" by simp
        with step sv v fresh False show ?thesis by simp
      next
        case True
        with exec_all_save_links[OF ok1 m1, of "tags metadata"] l1i obtain db' where
          e': "exec_all db1 ?S = Inr db'" and ok': "schema_ok db'"
          and i': "images db' = images db1" and n': "tag_names db' = tag_names db1 \<union> set (tags metadata)"
          and l': "\<forall>j. linked db' j = (if j = ?i then linked db1 ?i \<union> set (tags metadata) else linked db1 j)"
          by auto
        have r: "saveImage db metadata = (Inr (), db')" using sv step e' by simp
        have "images db' = images db @ [?r]" using i' by (simp add: db1_def)
        moreover have "tag_names db' = tag_names db \<union> set (tags metadata)"
          using n' by (simp add: db1_def tag_names_def)
        moreover have "\<forall>j. linked db' j = (if j = ?i then set (tags metadata) else linked db j)"
          using l' l1 l1i by simp
        ultimately show ?thesis using r ok' v fresh True by auto
      qed
    qed
  qed
qed

text \<open>
  Claim C2. On a database that satisfies the schema, \<open>saveImage\<close> either fails and
  leaves the database exactly as it was, or succeeds with all of its effects: the image
  row is appended, every tag of the record exists, the image is associated with exactly
  the tags of the record, other images are unchanged and the schema invariants hold.
  When the id already exists it fails.
\<close>

theorem saveImage_atomic:
  assumes ok: "schema_ok db"
  shows "((\<exists>e. saveImage db metadata = (Inl e, db)) \<or>
          (\<exists>db'. saveImage db metadata = (Inr (), db') \<and> schema_ok db' \<and>
                images db' = images db @ [metadataToRow metadata] \<and>
                tag_names db' = tag_names db \<union> set (tags metadata) \<and>
                (\<forall>j. linked db' j = (if j = m_id metadata then set (tags metadata) else linked db j)))) \<and>
         (m_id metadata \<in> image_ids db \<longrightarrow> (\<exists>e. saveImage db metadata = (Inl e, db)))"
  using saveImage_result[OF ok, of metadata] by (auto split: if_splits)

theorem saveImage_atomic_witness:
  "schema_ok empty_db \<and>
   saveImage empty_db scenario_metadata = (Inr (), scenario_db) \<and>
   linked scenario_db ''img1'' = {''cat'', ''orange''} \<and>
   schema_ok scenario_db \<and>
   m_id scenario_metadata \<in> image_ids scenario_db \<and>
   saveImage scenario_db scenario_metadata = (Inl (Constraint_PrimaryKey ''images''), scenario_db)"
proof -
  have a: "saveImage empty_db scenario_metadata = (Inr (), scenario_db)"
    by code_simp
  have m: "m_id scenario_metadata \<in> image_ids scenario_db"
    by (simp add: image_ids_def scenario_defs sample_defs)
  from saveImage_atomic[OF schema_ok_scenario_db, of scenario_metadata, THEN conjunct2, THEN mp, OF m]
  obtain e where f: "saveImage scenario_db scenario_metadata = (Inl e, scenario_db)" ..
  have "fst (saveImage scenario_db scenario_metadata) = Inl (Constraint_PrimaryKey ''images'')"
    by code_simp
  with f have b: "saveImage scenario_db scenario_metadata = (Inl (Constraint_PrimaryKey ''images''), scenario_db)"
    by simp
  from schema_ok_empty_db a linked_scenario_db schema_ok_scenario_db m b show ?thesis by (intro conjI)
qed

text \<open>
  Claim C10. On a database that satisfies the schema, a record whose tag list names a
  tag twice makes \<open>saveImage\<close> fail with the database unchanged; when the first
  statement passes (valid orientation, fresh id) the failure is the primary key of
  \<open>image_tags\<close>. So \<open>saveImage\<close> succeeds only for a duplicate-free tag list.
\<close>

theorem saveImage_duplicate_tag_fails:
  assumes ok: "schema_ok db"
  shows "(\<not> distinct (tags metadata) \<longrightarrow>
            (\<exists>e. saveImage db metadata = (Inl e, db)) \<and>
            (valid_orientation (orientation metadata) \<and> m_id metadata \<notin> image_ids db \<longrightarrow>
               saveImage db metadata = (Inl (Constraint_PrimaryKey ''image_tags''), db))) \<and>
         (\<forall>db'. saveImage db metadata = (Inr (), db') \<longrightarrow> distinct (tags metadata))"
  using saveImage_result[OF ok, of metadata] by (auto split: if_splits)

theorem saveImage_duplicate_tag_fails_witness:
  "schema_ok sample_db \<and>
   tags duplicate_metadata = [''cat'', ''cat''] \<and>
   \<not> distinct (tags duplicate_metadata) \<and>
   valid_orientation (orientation duplicate_metadata) \<and>
   m_id duplicate_metadata \<notin> image_ids sample_db \<and>
   saveImage sample_db duplicate_metadata = (Inl (Constraint_PrimaryKey ''image_tags''), sample_db)"
proof -
  have t: "tags duplicate_metadata = [''cat'', ''cat'']"
    by (simp add: duplicate_metadata_def sample_defs)
  have d: "\<not> distinct (tags duplicate_metadata)" by (simp add: t)
  have v: "valid_orientation (orientation duplicate_metadata)"
    by (simp add: valid_orientation_def duplicate_metadata_def sample_defs)
  have f: "m_id duplicate_metadata \<notin> image_ids sample_db"
    by (simp add: image_ids_def duplicate_metadata_def sample_defs)
  have r: "saveImage sample_db duplicate_metadata = (Inl (Constraint_PrimaryKey ''image_tags''), sample_db)"
    using saveImage_duplicate_tag_fails[OF schema_ok_sample_db, of duplicate_metadata,
      THEN conjunct1, THEN mp, OF d, THEN conjunct2, THEN mp, OF conjI[OF v f]] .
  from schema_ok_sample_db t d v f r show ?thesis by (intro conjI)
qed

section \<open>Listing images page by page\<close>







lemma set_order_by [simp]: "set (order_by_upload_time_desc tie rows) = set rows"
  by (simp add: order_by_upload_time_desc_def)

lemma length_order_by [simp]: "length (order_by_upload_time_desc tie rows) = length rows"
  by (simp add: order_by_upload_time_desc_def)

lemma distinct_order_by [simp]: "distinct (order_by_upload_time_desc tie rows) = distinct rows"
  by (simp add: order_by_upload_time_desc_def)


text \<open>
  Every arrangement of the rows that is sorted by upload time descending is the result
  for some ranking, so the parameter covers every order the engine may choose.
\<close>

lemma map_position: "distinct xs \<Longrightarrow> map (position xs) xs = [0..<length xs]"
proof (induction xs)
  case Nil
  then show ?case by simp
next
  case (Cons a as)
  have "map (position (a # as)) as = map (Suc \<circ> position as) as"
    using Cons.prems by (intro map_cong) (auto simp: position_def)
  also have "\<dots> = map Suc [0..<length as]"
    using Cons by (simp flip: map_map)
  finally have "map (position (a # as)) as = map Suc [0..<length as]" .
  moreover have "position (a # as) a = 0" by (simp add: position_def)
  ultimately show ?case by (simp add: map_Suc_upt upt_conv_Cons del: upt_Suc)
qed

lemma order_by_any_arrangement:
  assumes dA: "distinct A"
    and sA: "sorted_wrt (\<lambda>a b. upload_time b \<le> upload_time a) A"
    and dr: "distinct rows" and sr: "set rows = set A"
  shows "order_by_upload_time_desc (position A) rows = A"
proof -
  let ?f = "position A"
  have mA: "map ?f A = [0..<length A]" using dA by (rule map_position)
  then have dmA: "distinct (map ?f A)" and smA: "sorted (map ?f A)" by simp_all
  from dmA have inj: "inj_on ?f (set A)" by (simp add: distinct_map)
  have "distinct (map ?f (sort_key ?f rows))"
    using dr inj sr by (simp add: distinct_map)
  moreover have "sorted (map ?f (sort_key ?f rows))" by (rule sorted_sort_key)
  moreover have "set (map ?f (sort_key ?f rows)) = set (map ?f A)" using sr by simp
  ultimately have "map ?f (sort_key ?f rows) = map ?f A"
    using dmA smA by (intro sorted_distinct_set_unique)
  moreover have "inj_on ?f (set (sort_key ?f rows) \<union> set A)" using inj sr by simp
  ultimately have s1: "sort_key ?f rows = A" by (simp add: inj_on_map_eq_map)
  have "sorted_wrt (\<lambda>a b. upload_time a \<le> upload_time b) (rev A)"
    using sA by (simp add: sorted_wrt_rev)
  then have "sorted (map upload_time (rev A))" by (simp add: sorted_map)
  then have s2: "sort_key upload_time (rev A) = rev A" by (rule sort_key_id_if_sorted)
  show ?thesis by (simp add: order_by_upload_time_desc_def s1 s2)
qed















end
